theory Spec2Isabelle
  imports Complex_Main
begin

section \<open>Data model\<close>

text \<open>
  The development embeds \<^verbatim>\<open>src/fconv/fkrelu.cpp\<close>.  Conventions:
  \<^item> \<^verbatim>\<open>ASRTF(cond, msg)\<close> aborts the computation with \<^verbatim>\<open>msg\<close> when \<^verbatim>\<open>cond\<close> is false; it is
    the value \<open>Inl (ASRTF msg)\<close>.  A failing C \<^verbatim>\<open>assert\<close> is \<open>Inl (AssertFailed msg)\<close>.
  \<^item> Indexing a \<^verbatim>\<open>std::vector\<close> or a raw array out of range is undefined behaviour in C++;
    the embedding records it as \<open>Inl UndefinedBehaviour\<close> instead of reading a value.
  \<^item> \<^verbatim>\<open>double\<close> is the IEEE 754 binary64 format with its default rounding (to nearest, ties
    to even): see the next section.  \<^verbatim>\<open>mpq_t\<close> is \<open>rat\<close>.
  \<^item> \<^verbatim>\<open>MatrixXd\<close> is a list of rows together with the column count (a matrix with no row
    still has a width).  The values that stand for a \<^verbatim>\<open>MatrixXd\<close> are those whose rows all
    have that many entries (\<open>wf_matrix\<close>); \<open>A(i, j)\<close> is \<open>coeff A i j\<close>.
  \<^item> \<^verbatim>\<open>bset\<close> (a dynamic bitset) is a list of booleans.
\<close>

datatype error =
    ASRTF string
  | AssertFailed string
  | UndefinedBehaviour

section \<open>IEEE 754 binary64\<close>

text \<open>
  A \<^verbatim>\<open>double\<close> is a finite number, one of the two zeros, one of the two infinities, or a
  NaN.  \<open>Num r\<close> is the finite double whose value is the rational \<open>r\<close> (\<open>Num 0\<close> is \<open>+0\<close>),
  \<open>NegZero\<close> is \<open>-0\<close>.  The values that stand for a \<^verbatim>\<open>double\<close> are those with \<open>is_double\<close>: the
  rationals \<open>\<plusminus> n \<cdot> 2\<^sup>s \<cdot> 2\<^sup>-\<^sup>1\<^sup>0\<^sup>7\<^sup>4\<close> with \<open>n < 2\<^sup>5\<^sup>3\<close> below \<open>2\<^sup>1\<^sup>0\<^sup>2\<^sup>4\<close>.  The payload and the sign of a NaN
  are not kept: no operation of the source reads them.
\<close>

datatype double = Num rat | NegZero | PInf | NInf | NaN

definition is_nan :: "double \<Rightarrow> bool" where
  "is_nan a = (a = NaN)"

definition is_inf :: "double \<Rightarrow> bool" where
  "is_inf a = (a = PInf \<or> a = NInf)"

definition is_finite :: "double \<Rightarrow> bool" where
  "is_finite a = (case a of Num r \<Rightarrow> True | NegZero \<Rightarrow> True | _ \<Rightarrow> False)"

text \<open>The value of a finite double.\<close>

definition dval :: "double \<Rightarrow> rat" where
  "dval a = (case a of Num r \<Rightarrow> r | _ \<Rightarrow> 0)"

definition is_zero :: "double \<Rightarrow> bool" where
  "is_zero a = (is_finite a \<and> dval a = 0)"

definition sign_bit :: "double \<Rightarrow> bool" where
  "sign_bit a = (case a of Num r \<Rightarrow> r < 0 | NegZero \<Rightarrow> True | NInf \<Rightarrow> True | _ \<Rightarrow> False)"

definition signed_zero :: "bool \<Rightarrow> double" where
  "signed_zero neg = (if neg then NegZero else Num 0)"

definition signed_inf :: "bool \<Rightarrow> double" where
  "signed_inf neg = (if neg then NInf else PInf)"

text \<open>
  Rounding.  Every finite double is a multiple of \<open>2\<^sup>-\<^sup>1\<^sup>0\<^sup>7\<^sup>4\<close>.  For a rational \<open>x\<close>, \<open>scaled x\<close> is
  \<open>\<bar>x\<bar>\<close> in that unit; \<open>shift x\<close> is the number of low bits that do not fit in the 53 bits of the
  significand, and \<open>ulp x\<close> the spacing of the doubles around \<open>x\<close>.  The magnitude is rounded
  to a multiple of \<open>ulp x\<close>, to nearest with ties to even (\<open>round_nearest\<close>, the rounding of
  the arithmetic) or toward zero (\<open>round_toward_zero\<close>); a magnitude of \<open>2\<^sup>1\<^sup>0\<^sup>2\<^sup>4\<close> or more is an
  infinity, and a magnitude rounded to zero keeps the sign.
\<close>

fun bit_length :: "nat \<Rightarrow> nat" where
  "bit_length n = (if n = 0 then 0 else Suc (bit_length (n div 2)))"

declare bit_length.simps [simp del]

definition scaled :: "rat \<Rightarrow> rat" where
  "scaled x = \<bar>x\<bar> * 2 ^ 1074"

definition shift :: "rat \<Rightarrow> nat" where
  "shift x = bit_length (nat \<lfloor>scaled x\<rfloor>) - 53"

definition ulp :: "rat \<Rightarrow> rat" where
  "ulp x = 2 ^ shift x / 2 ^ 1074"

definition rne :: "rat \<Rightarrow> int" where
  "rne q = (let f = \<lfloor>q\<rfloor>; r = q - of_int f in
            if r < 1 / 2 then f else if 1 / 2 < r then f + 1
            else if even f then f else f + 1)"

definition make_double :: "bool \<Rightarrow> rat \<Rightarrow> double" where
  "make_double neg m =
     (if 2 ^ 1024 \<le> m then signed_inf neg
      else if m = 0 then signed_zero neg
      else Num (if neg then - m else m))"

definition round_nearest :: "rat \<Rightarrow> double" where
  "round_nearest x = make_double (x < 0) (of_int (rne (scaled x / 2 ^ shift x)) * ulp x)"

definition round_toward_zero :: "rat \<Rightarrow> double" where
  "round_toward_zero x = make_double (x < 0) (of_int \<lfloor>scaled x / 2 ^ shift x\<rfloor> * ulp x)"

definition is_double :: "double \<Rightarrow> bool" where
  "is_double a = (case a of Num r \<Rightarrow> round_nearest r = Num r | _ \<Rightarrow> True)"

text \<open>The arithmetic: the exact result, rounded to nearest; the special cases of the
  standard for NaN, infinities and zeros.\<close>

definition dneg :: "double \<Rightarrow> double" where
  "dneg a =
     (case a of
        Num r \<Rightarrow> if r = 0 then NegZero else Num (- r)
      | NegZero \<Rightarrow> Num 0
      | PInf \<Rightarrow> NInf
      | NInf \<Rightarrow> PInf
      | NaN \<Rightarrow> NaN)"

definition dabs :: "double \<Rightarrow> double" where
  "dabs a =
     (case a of
        Num r \<Rightarrow> Num \<bar>r\<bar>
      | NegZero \<Rightarrow> Num 0
      | PInf \<Rightarrow> PInf
      | NInf \<Rightarrow> PInf
      | NaN \<Rightarrow> NaN)"

definition dadd :: "double \<Rightarrow> double \<Rightarrow> double" where
  "dadd a b =
     (if is_nan a \<or> is_nan b then NaN
      else if is_inf a then (if is_inf b \<and> a \<noteq> b then NaN else a)
      else if is_inf b then b
      else if dval a + dval b = 0 then signed_zero (sign_bit a \<and> sign_bit b)
      else round_nearest (dval a + dval b))"

definition dsub :: "double \<Rightarrow> double \<Rightarrow> double" where
  "dsub a b = dadd a (dneg b)"

definition dmul :: "double \<Rightarrow> double \<Rightarrow> double" where
  "dmul a b =
     (if is_nan a \<or> is_nan b then NaN
      else if is_inf a \<or> is_inf b
      then (if is_zero a \<or> is_zero b then NaN else signed_inf (sign_bit a \<noteq> sign_bit b))
      else if dval a * dval b = 0 then signed_zero (sign_bit a \<noteq> sign_bit b)
      else round_nearest (dval a * dval b))"

definition ddiv :: "double \<Rightarrow> double \<Rightarrow> double" where
  "ddiv a b =
     (if is_nan a \<or> is_nan b then NaN
      else if is_inf a then (if is_inf b then NaN else signed_inf (sign_bit a \<noteq> sign_bit b))
      else if is_inf b then signed_zero (sign_bit a \<noteq> sign_bit b)
      else if is_zero b
      then (if is_zero a then NaN else signed_inf (sign_bit a \<noteq> sign_bit b))
      else if is_zero a then signed_zero (sign_bit a \<noteq> sign_bit b)
      else round_nearest (dval a / dval b))"

text \<open>The comparisons \<^verbatim>\<open><\<close>, \<^verbatim>\<open><=\<close> and \<^verbatim>\<open>==\<close>: false when an operand is a NaN; the two zeros
  are equal.\<close>

definition dlt :: "double \<Rightarrow> double \<Rightarrow> bool" where
  "dlt a b =
     (\<not> is_nan a \<and> \<not> is_nan b \<and>
      (if a = PInf \<or> b = NInf then False
       else if a = NInf \<or> b = PInf then True
       else dval a < dval b))"

definition dle :: "double \<Rightarrow> double \<Rightarrow> bool" where
  "dle a b =
     (\<not> is_nan a \<and> \<not> is_nan b \<and>
      (if a = NInf \<or> b = PInf then True
       else if a = PInf \<or> b = NInf then False
       else dval a \<le> dval b))"

definition deq :: "double \<Rightarrow> double \<Rightarrow> bool" where
  "deq a b =
     (\<not> is_nan a \<and> \<not> is_nan b \<and>
      (if is_finite a \<and> is_finite b then dval a = dval b else a = b))"

text \<open>The conversion of an \<^verbatim>\<open>int\<close> to \<^verbatim>\<open>double\<close>: an \<^verbatim>\<open>int\<close> has 32 bits, so it is exact.\<close>

definition double_of_int :: "int \<Rightarrow> double" where
  "double_of_int i = Num (of_int i)"

section \<open>Matrices and bitsets\<close>

record matrix =
  mrows :: "double list list"
  mcols :: nat

definition wf_matrix :: "matrix \<Rightarrow> bool" where
  "wf_matrix A = list_all (\<lambda>r. length r = mcols A) (mrows A)"

definition coeff :: "matrix \<Rightarrow> nat \<Rightarrow> nat \<Rightarrow> double" where
  "coeff A i j = mrows A ! i ! j"

type_synonym bset = "bool list"

section \<open>transpose_incidence\<close>

text \<open>The inner loop over \<^verbatim>\<open>col\<close>: \<^verbatim>\<open>if (!in_row.test(col)) continue; output[col].set(row);\<close>\<close>

fun set_cols :: "bset \<Rightarrow> nat \<Rightarrow> nat list \<Rightarrow> bset list \<Rightarrow> bset list" where
  "set_cols in_row row [] output = output"
| "set_cols in_row row (col # cols) output =
     (if \<not> in_row ! col then set_cols in_row row cols output
      else set_cols in_row row cols (output[col := (output ! col)[row := True]]))"

text \<open>The outer loop over \<^verbatim>\<open>row\<close>, with the size assertion on every input row.\<close>

fun transpose_rows :: "bset list \<Rightarrow> nat \<Rightarrow> nat list \<Rightarrow> bset list \<Rightarrow> error + bset list" where
  "transpose_rows input num_cols [] output = Inr output"
| "transpose_rows input num_cols (row # rows) output =
     (let in_row = input ! row in
      if length in_row \<noteq> num_cols
      then Inl (AssertFailed ''All incidences should be of the same size.'')
      else transpose_rows input num_cols rows (set_cols in_row row [0..<num_cols] output))"

definition transpose_incidence :: "bset list \<Rightarrow> error + bset list" where
  "transpose_incidence input =
     (if input = [] then Inl (ASRTF ''The function doesn't support empty input.'')
      else
        let num_rows = length input;
            num_cols = length (input ! 0)
        in transpose_rows input num_cols [0..<num_rows]
             (replicate num_cols (replicate num_rows False)))"

section \<open>relu_1\<close>

text \<open>Both \<^verbatim>\<open>ASRTF\<close> checks and both assertions are branches.  \<^verbatim>\<open>-lb * ub / (ub - lb)\<close> is
  the product of \<^verbatim>\<open>-lb\<close> and \<^verbatim>\<open>ub\<close>, divided by the difference, each operation rounded.\<close>

definition relu_1 :: "double \<Rightarrow> double \<Rightarrow> error + matrix" where
  "relu_1 lb ub =
     (if \<not> dle lb ub
      then Inl (ASRTF ''Unsoundness - lower bound should be <= then upper bound.'')
      else if \<not> (dlt lb (Num 0) \<and> dlt (Num 0) ub)
      then Inl (ASRTF ''Expecting non-trivial input where lb < 0 < ub.'')
      else
        let lmd = ddiv (dmul (dneg lb) ub) (dsub ub lb);
            mu = ddiv ub (dsub ub lb)
        in if \<not> dlt (Num 0) lmd then Inl (AssertFailed ''Expected lmd > 0.'')
           else if \<not> dlt (Num 0) mu then Inl (AssertFailed ''Expected mu > 0.'')
           else Inr \<lparr>mrows = [[Num 0, Num 0, Num 1],
                              [Num 0, Num (- 1), Num 1],
                              [lmd, mu, Num (- 1)]],
                     mcols = 3\<rparr>)"

section \<open>Collaborators outside the embedded file\<close>

text \<open>
  \<^verbatim>\<open>fkrelu.cpp\<close> includes \<^verbatim>\<open>octahedron.h\<close>, \<^verbatim>\<open>split_in_quadrants.h\<close>, \<^verbatim>\<open>decomposition.h\<close>,
  \<^verbatim>\<open>pdd.h\<close>, \<^verbatim>\<open>mpq.h\<close> and \<^verbatim>\<open>utils.h\<close>, and calls the double-description library cdd.
  Their types are declared here from the way \<^verbatim>\<open>fkrelu.cpp\<close> uses them; their functions and
  tables are fields of a record of collaborators, over which every statement about
  \<^verbatim>\<open>fkrelu\<close> and \<^verbatim>\<open>krelu_with_cdd\<close> is universally quantified.  A collaborator is a
  function: a call to it returns.  The table \<^verbatim>\<open>K2OCTAHEDRON_COEFS[K][i][j]\<close> is the function
  of \<open>K\<close>, \<open>i\<close> and \<open>j\<close>; \<^verbatim>\<open>dd_DDMatrix2Poly\<close> returns the error code it writes to \<^verbatim>\<open>err\<close>
  together with the polyhedron.
\<close>

text \<open>Modelled from the spec: the sign labels of a quadrant (``a tuple of K sign labels
  (PLUS/MINUS), one per dimension''); the code compares them with \<^verbatim>\<open>MINUS\<close> and \<^verbatim>\<open>PLUS\<close>.\<close>

datatype Polarity = MINUS | PLUS

type_synonym Quadrant = "Polarity list"

text \<open>\<^verbatim>\<open>OctahedronV\<close>: the fields \<^verbatim>\<open>V\<close>, \<^verbatim>\<open>incidence\<close> and \<^verbatim>\<open>orthant_adjacencies\<close> read by
  \<^verbatim>\<open>fkrelu\<close>; the adjacency data is only passed on, so its type is a parameter.\<close>

record 'adj OctahedronV =
  oct_V :: "rat list list"
  oct_incidence :: "bset list"
  orthant_adjacencies :: 'adj

text \<open>\<^verbatim>\<open>QuadrantInfo\<close>: the fields \<^verbatim>\<open>V\<close> (a \<^verbatim>\<open>vector<mpq_t*>\<close>) and \<^verbatim>\<open>V_to_H_incidence\<close>.\<close>

record QuadrantInfo =
  qi_V :: "rat list list"
  V_to_H_incidence :: "bset list"

text \<open>\<^verbatim>\<open>PDD\<close>, built by \<^verbatim>\<open>{K + 1, V, H, incidence_H_to_V}\<close>: dimension, vertex matrix,
  halfspace matrix, incidence.\<close>

record PDD =
  pdd_dim :: int
  pdd_V :: matrix
  pdd_H :: matrix
  pdd_incidence :: "bset list"

text \<open>A \<^verbatim>\<open>std::map<Quadrant, QuadrantInfo>\<close> is iterated in key order; it is the list of its
  entries in that order.  A \<^verbatim>\<open>dd_MatrixPtr\<close> is the list of its rows of rationals.
  \<open>mpq_get_d\<close> is the conversion of one rational to \<^verbatim>\<open>double\<close> that \<^verbatim>\<open>mpq_convert2eigen\<close> applies;
  \<open>merged_maximal\<close> is the non-redundancy test of \<^verbatim>\<open>decomposition\<close> on the merged rows.\<close>

record ('adj, 'poly) collaborators =
  K2OCTAHEDRON_COEFS :: "nat \<Rightarrow> nat \<Rightarrow> nat \<Rightarrow> int"
  compute_octahedron_V :: "matrix \<Rightarrow> 'adj OctahedronV"
  split_in_quadrants ::
    "rat list list \<Rightarrow> bset list \<Rightarrow> 'adj \<Rightarrow> nat \<Rightarrow> (Quadrant \<times> QuadrantInfo) list"
  compute_maximal_indexes :: "bset list \<Rightarrow> int list"
  mpq_get_d :: "rat \<Rightarrow> double"
  merged_maximal :: "double list list \<Rightarrow> double list \<Rightarrow> bool"
  compute_quadrants_with_cdd :: "matrix \<Rightarrow> (Quadrant \<times> QuadrantInfo) list"
  dd_NoError :: int
  dd_DDMatrix2Poly :: "rat list list \<Rightarrow> int \<times> 'poly"
  dd_CopyInequalities :: "'poly \<Rightarrow> rat list list"
  cdd2eigen :: "rat list list \<Rightarrow> matrix"

text \<open>Modelled from the spec: the table \<^verbatim>\<open>POW3\<close> of \<^verbatim>\<open>utils.h\<close>; the input has ``exactly
  \<open>3^K - 1\<close> rows'', so \<^verbatim>\<open>POW3[K]\<close> is \<open>3^K\<close>.\<close>

definition POW3 :: "nat \<Rightarrow> int" where
  "POW3 k = 3 ^ k"

text \<open>Modelled from the spec: \<^verbatim>\<open>mpq_convert2eigen\<close> of \<^verbatim>\<open>mpq.h\<close>, the ``conversion between
  arbitrary-precision rational arrays and floating-point matrices'': the first \<open>n\<close>
  coordinates of every vertex, each converted to \<^verbatim>\<open>double\<close>.  The spec does not say how a
  rational that is not a double is rounded; the conversion of one coordinate is the
  collaborator \<open>mpq_get_d\<close>.\<close>

definition mpq_convert2eigen ::
  "('adj, 'poly) collaborators \<Rightarrow> nat \<Rightarrow> rat list list \<Rightarrow> matrix" where
  "mpq_convert2eigen env n V_mpq =
     \<lparr>mrows = map (\<lambda>v. map (mpq_get_d env) (take n v)) V_mpq, mcols = n\<rparr>"

text \<open>Modelled from the spec: \<^verbatim>\<open>decomposition\<close> of \<^verbatim>\<open>decomposition.h\<close>, not part of the embedded
  file.  ``Given the mapping quadrant\<rightarrow>PDD for all quadrants of dimension K, produce one
  halfspace matrix'': the component's job is ``to assemble and deduplicate the halfspace
  rows contributed by all quadrants into the single output matrix for the K-dimensional
  relaxation, respecting the same maximality/non-redundancy guarantee within the merged
  set''; the output is ``a halfspace matrix H with K+1 columns''.  The quadrants of
  dimension \<open>K\<close> are the lists of \<open>K\<close> sign labels.\<close>

definition decomposition ::
  "('adj, 'poly) collaborators \<Rightarrow> (Quadrant \<rightharpoonup> PDD) \<Rightarrow> nat \<Rightarrow> matrix" where
  "decomposition env quadrant2pdd K =
     (let rows = concat (map (\<lambda>quadrant. case quadrant2pdd quadrant of
                                           None \<Rightarrow> []
                                         | Some pdd \<Rightarrow> mrows (pdd_H pdd))
                          (List.n_lists K [MINUS, PLUS]))
      in \<lparr>mrows = filter (merged_maximal env rows) (remdups rows), mcols = K + 1\<rparr>)"

section \<open>verify_fkrelu_input\<close>

text \<open>\<^verbatim>\<open>row(0, j + 1) == coef_row[j]\<close> compares a \<^verbatim>\<open>double\<close> with an \<^verbatim>\<open>int\<close>: the \<^verbatim>\<open>int\<close> is
  converted.\<close>

fun verify_cols :: "(nat \<Rightarrow> int) \<Rightarrow> double list \<Rightarrow> nat list \<Rightarrow> error + unit" where
  "verify_cols coef_row row [] = Inr ()"
| "verify_cols coef_row row (j # js) =
     (if \<not> deq (row ! (j + 1)) (double_of_int (coef_row j))
      then Inl (ASRTF ''Input is not of correct format.'')
      else verify_cols coef_row row js)"

fun verify_rows :: "(nat \<Rightarrow> nat \<Rightarrow> int) \<Rightarrow> matrix \<Rightarrow> nat \<Rightarrow> nat list \<Rightarrow> error + unit" where
  "verify_rows coefs A K [] = Inr ()"
| "verify_rows coefs A K (i # is) =
     (case verify_cols (coefs i) (mrows A ! i) [0..<K] of
        Inl e \<Rightarrow> Inl e
      | Inr _ \<Rightarrow> verify_rows coefs A K is)"

definition verify_fkrelu_input :: "('adj, 'poly) collaborators \<Rightarrow> matrix \<Rightarrow> error + unit" where
  "verify_fkrelu_input env A =
     (let K = int (mcols A) - 1 in
      if \<not> (1 \<le> K \<and> K \<le> 4) then Inl (ASRTF ''K should be within allowed range.'')
      else if \<not> int (length (mrows A)) = POW3 (nat K) - 1
      then Inl (ASRTF ''Unexpected number of rows in the input.'')
      else verify_rows (K2OCTAHEDRON_COEFS env (nat K)) A (nat K) [0..<length (mrows A)])"

section \<open>fkrelu\<close>

text \<open>One pass of the loop over \<^verbatim>\<open>maximal_H\<close> (lines 106--121): the incidence row and the
  halfspace row stored at position \<^verbatim>\<open>i\<close>.\<close>

definition maximal_row ::
  "matrix \<Rightarrow> nat \<Rightarrow> Quadrant \<Rightarrow> bset list \<Rightarrow> int \<Rightarrow> error + (double list \<times> bset)" where
  "maximal_row A K quadrant incidence_H_to_V_with_redundancy maximal =
     (if maximal < 0 \<or> int (length incidence_H_to_V_with_redundancy) \<le> maximal
      then Inl UndefinedBehaviour
      else
        let inc = incidence_H_to_V_with_redundancy ! nat maximal in
        if maximal < int (length (mrows A)) then Inr (mrows A ! nat maximal, inc)
        else
          let xi = maximal - int (length (mrows A)) in
          if \<not> (0 \<le> xi \<and> xi < int K)
          then Inl (AssertFailed ''Sanity checking the range of xi.'')
          else if length quadrant \<le> nat xi then Inl UndefinedBehaviour
          else if quadrant ! nat xi = MINUS
          then Inr ((replicate (K + 1) (Num 0))[nat xi + 1 := Num (- 1)], inc)
          else Inr ((replicate (K + 1) (Num 0))[nat xi + 1 := Num 1], inc))"

fun maximal_rows ::
  "matrix \<Rightarrow> nat \<Rightarrow> Quadrant \<Rightarrow> bset list \<Rightarrow> int list \<Rightarrow> error + (double list list \<times> bset list)" where
  "maximal_rows A K quadrant inc [] = Inr ([], [])"
| "maximal_rows A K quadrant inc (maximal # rest) =
     (case maximal_row A K quadrant inc maximal of
        Inl e \<Rightarrow> Inl e
      | Inr (h, b) \<Rightarrow>
          (case maximal_rows A K quadrant inc rest of
             Inl e \<Rightarrow> Inl e
           | Inr (hs, bs) \<Rightarrow> Inr (h # hs, b # bs)))"

text \<open>The body of the loop over \<^verbatim>\<open>quadrant2info\<close> (lines 82--123): the PDD stored for one
  quadrant.\<close>

definition quadrant_pdd ::
  "('adj, 'poly) collaborators \<Rightarrow> matrix \<Rightarrow> nat \<Rightarrow> Quadrant \<Rightarrow> QuadrantInfo \<Rightarrow> error + PDD" where
  "quadrant_pdd env A K quadrant info =
     (if qi_V info = []
      then
        let empty = \<lparr>mrows = [], mcols = K + 1\<rparr>
        in Inr \<lparr>pdd_dim = int K + 1, pdd_V = empty, pdd_H = empty, pdd_incidence = []\<rparr>
      else
        let V = mpq_convert2eigen env (K + 1) (qi_V info);
            incidence_V_to_H = V_to_H_incidence info
        in
        if \<not> length incidence_V_to_H = length (mrows V)
        then Inl (AssertFailed ''Incidence_V_to_H size should equal V.rows()'')
        else
          case transpose_incidence incidence_V_to_H of
            Inl e \<Rightarrow> Inl e
          | Inr incidence_H_to_V_with_redundancy \<Rightarrow>
              if \<not> length incidence_H_to_V_with_redundancy = length (mrows A) + K
              then Inl (AssertFailed
                ''Incidence_H_to_V_with_redundancy size should equal A.rows() + K'')
              else
                let maximal_H = compute_maximal_indexes env incidence_H_to_V_with_redundancy
                in
                (case maximal_rows A K quadrant incidence_H_to_V_with_redundancy maximal_H of
                   Inl e \<Rightarrow> Inl e
                 | Inr (H, incidence_H_to_V) \<Rightarrow>
                     Inr \<lparr>pdd_dim = int K + 1, pdd_V = V,
                          pdd_H = \<lparr>mrows = H, mcols = K + 1\<rparr>,
                          pdd_incidence = incidence_H_to_V\<rparr>))"

fun fkrelu_quadrants ::
  "('adj, 'poly) collaborators \<Rightarrow> matrix \<Rightarrow> nat \<Rightarrow> (Quadrant \<times> QuadrantInfo) list \<Rightarrow>
   (Quadrant \<rightharpoonup> PDD) \<Rightarrow> error + (Quadrant \<rightharpoonup> PDD)" where
  "fkrelu_quadrants env A K [] quadrant2pdd = Inr quadrant2pdd"
| "fkrelu_quadrants env A K ((quadrant, info) # rest) quadrant2pdd =
     (case quadrant_pdd env A K quadrant info of
        Inl e \<Rightarrow> Inl e
      | Inr pdd \<Rightarrow> fkrelu_quadrants env A K rest (quadrant2pdd(quadrant \<mapsto> pdd)))"

text \<open>Lines 72--124 of \<^verbatim>\<open>fkrelu\<close>: the quadrants handed out by the splitter, and the map
  \<^verbatim>\<open>quadrant2pdd\<close> as it stands when the loop is left.\<close>

definition fkrelu_quadrant2info ::
  "('adj, 'poly) collaborators \<Rightarrow> matrix \<Rightarrow> (Quadrant \<times> QuadrantInfo) list" where
  "fkrelu_quadrant2info env A =
     (let K = nat (int (mcols A) - 1);
          oct = compute_octahedron_V env A
      in split_in_quadrants env (oct_V oct) (oct_incidence oct) (orthant_adjacencies oct) K)"

definition fkrelu_quadrant2pdd ::
  "('adj, 'poly) collaborators \<Rightarrow> matrix \<Rightarrow> error + (Quadrant \<rightharpoonup> PDD)" where
  "fkrelu_quadrant2pdd env A =
     fkrelu_quadrants env A (nat (int (mcols A) - 1)) (fkrelu_quadrant2info env A) Map.empty"

definition fkrelu :: "('adj, 'poly) collaborators \<Rightarrow> matrix \<Rightarrow> error + matrix" where
  "fkrelu env A =
     (let K = int (mcols A) - 1 in
      if \<not> (1 \<le> K \<and> K \<le> 4) then Inl (ASRTF ''K should be within allowed range.'')
      else
        case verify_fkrelu_input env A of
          Inl e \<Rightarrow> Inl e
        | Inr _ \<Rightarrow>
            if K = 1 then relu_1 (dneg (coeff A 0 0)) (coeff A 1 0)
            else
              (case fkrelu_quadrant2pdd env A of
                 Inl e \<Rightarrow> Inl e
               | Inr quadrant2pdd \<Rightarrow> Inr (decomposition env quadrant2pdd (nat K))))"

section \<open>krelu_with_cdd\<close>

text \<open>The loop \<^verbatim>\<open>for (i = 0; i < K + 1; i++) mpq_set(v_projection[i], v[i])\<close>.\<close>

fun copy_input_coords :: "rat list \<Rightarrow> nat list \<Rightarrow> rat list \<Rightarrow> error + rat list" where
  "copy_input_coords v [] v_projection = Inr v_projection"
| "copy_input_coords v (i # is) v_projection =
     (if length v \<le> i \<or> length v_projection \<le> i then Inl UndefinedBehaviour
      else copy_input_coords v is (v_projection[i := v ! i]))"

text \<open>The loop \<^verbatim>\<open>for (i = 0; i < K; i++) if (quadrant[i] == PLUS) mpq_set(v_projection[1 + i + K], v[1 + i])\<close>.\<close>

fun copy_plus_coords ::
  "nat \<Rightarrow> Quadrant \<Rightarrow> rat list \<Rightarrow> nat list \<Rightarrow> rat list \<Rightarrow> error + rat list" where
  "copy_plus_coords K quadrant v [] v_projection = Inr v_projection"
| "copy_plus_coords K quadrant v (i # is) v_projection =
     (if length quadrant \<le> i then Inl UndefinedBehaviour
      else if quadrant ! i = PLUS
      then
        (if length v \<le> 1 + i \<or> length v_projection \<le> 1 + i + K then Inl UndefinedBehaviour
         else copy_plus_coords K quadrant v is (v_projection[1 + i + K := v ! (1 + i)]))
      else copy_plus_coords K quadrant v is v_projection)"

text \<open>The loop over the vertices of one quadrant; the state is the cdd matrix and \<^verbatim>\<open>counter\<close>.\<close>

fun project_vertices ::
  "nat \<Rightarrow> Quadrant \<Rightarrow> rat list list \<Rightarrow> rat list list \<times> nat \<Rightarrow> error + rat list list \<times> nat" where
  "project_vertices K quadrant [] (vertices, counter) = Inr (vertices, counter)"
| "project_vertices K quadrant (v # vs) (vertices, counter) =
     (if length vertices \<le> counter then Inl UndefinedBehaviour
      else
        case copy_input_coords v [0..<K + 1] (vertices ! counter) of
          Inl e \<Rightarrow> Inl e
        | Inr p \<Rightarrow>
            (case copy_plus_coords K quadrant v [0..<K] p of
               Inl e \<Rightarrow> Inl e
             | Inr p' \<Rightarrow>
                 project_vertices K quadrant vs (vertices[counter := p'], counter + 1)))"

fun project_quadrants ::
  "nat \<Rightarrow> (Quadrant \<times> QuadrantInfo) list \<Rightarrow> rat list list \<times> nat \<Rightarrow> error + rat list list \<times> nat" where
  "project_quadrants K [] st = Inr st"
| "project_quadrants K ((quadrant, info) # rest) st =
     (case project_vertices K quadrant (qi_V info) st of
        Inl e \<Rightarrow> Inl e
      | Inr st' \<Rightarrow> project_quadrants K rest st')"

text \<open>Lines 133--166: the generator matrix.  \<^verbatim>\<open>dd_CreateMatrix\<close> of cdd returns a matrix
  whose entries are initialised to zero (the source relies on it: ``in case of MINUS there
  should be 0.  And it is already there automatically'').\<close>

definition dd_CreateMatrix :: "nat \<Rightarrow> nat \<Rightarrow> rat list list" where
  "dd_CreateMatrix m n = replicate m (replicate n 0)"

definition krelu_vertices :: "nat \<Rightarrow> (Quadrant \<times> QuadrantInfo) list \<Rightarrow> error + rat list list" where
  "krelu_vertices K quadrant2info =
     (let num_vertices = fold (\<lambda>entry n. n + length (qi_V (snd entry))) quadrant2info 0;
          vertices = dd_CreateMatrix num_vertices (2 * K + 1)
      in
      case project_quadrants K quadrant2info (vertices, 0) of
        Inl e \<Rightarrow> Inl e
      | Inr (vertices', counter) \<Rightarrow>
          if \<not> counter = num_vertices
          then Inl (AssertFailed
            ''Consistency checking that counter equals the number of vertices.'')
          else Inr vertices')"

text \<open>\<^verbatim>\<open>std::to_string\<close> on the error code.\<close>

fun digits :: "nat \<Rightarrow> string" where
  "digits n = (if n < 10 then [char_of (48 + n)] else digits (n div 10) @ [char_of (48 + n mod 10)])"

definition to_string :: "int \<Rightarrow> string" where
  "to_string i = (if i < 0 then CHR ''-'' # digits (nat (- i)) else digits (nat i))"

text \<open>Lines 175--178: every row is divided by its largest absolute coefficient.
  \<^verbatim>\<open>maxCoeff\<close> of Eigen fails its assertion on a row without columns; otherwise it keeps the
  first coefficient and replaces it by every later one that compares greater.  A row of
  zeros is divided by zero and becomes a row of NaN.\<close>

fun max_coeff :: "double \<Rightarrow> double list \<Rightarrow> double" where
  "max_coeff res [] = res"
| "max_coeff res (x # xs) = max_coeff (if dlt res x then x else res) xs"

fun normalize_rows :: "double list list \<Rightarrow> error + double list list" where
  "normalize_rows [] = Inr []"
| "normalize_rows (row # rows) =
     (if row = [] then Inl (AssertFailed ''you are using an empty matrix'')
      else
        let abs_coef = max_coeff (dabs (hd row)) (map dabs (tl row)) in
        case normalize_rows rows of
          Inl e \<Rightarrow> Inl e
        | Inr rows' \<Rightarrow> Inr (map (\<lambda>x. ddiv x abs_coef) row # rows'))"

definition krelu_with_cdd :: "('adj, 'poly) collaborators \<Rightarrow> matrix \<Rightarrow> error + matrix" where
  "krelu_with_cdd env A =
     (let K = int (mcols A) - 1 in
      if \<not> (1 \<le> K \<and> K \<le> 4) then Inl (ASRTF ''K should be within allowed range.'')
      else
        let quadrant2info = compute_quadrants_with_cdd env A in
        case krelu_vertices (nat K) quadrant2info of
          Inl e \<Rightarrow> Inl e
        | Inr vertices \<Rightarrow>
            (case dd_DDMatrix2Poly env vertices of
               (err, poly) \<Rightarrow>
                 if \<not> err = dd_NoError env
                 then Inl (ASRTF (''Converting matrix to polytope failed with error '' @ to_string err))
                 else
                   let H = cdd2eigen env (dd_CopyInequalities env poly) in
                   (case normalize_rows (mrows H) of
                      Inl e \<Rightarrow> Inl e
                    | Inr rows \<Rightarrow> Inr \<lparr>mrows = rows, mcols = mcols H\<rparr>)))"

section \<open>The input contract, in the words of the specification\<close>

text \<open>The specification's contract on the input of \<^verbatim>\<open>fkrelu\<close>: \<open>K = A.cols() - 1\<close> lies in
  \<open>[1, 4]\<close>, \<open>A\<close> has exactly \<open>3^K - 1\<close> rows, and the coefficient \<open>A(i, j + 1)\<close> equals entry
  \<open>j\<close> of row \<open>i\<close> of the octahedron table for \<open>K\<close>.\<close>

definition octahedral_input :: "('adj, 'poly) collaborators \<Rightarrow> matrix \<Rightarrow> bool" where
  "octahedral_input env A =
     (let K = int (mcols A) - 1 in
      1 \<le> K \<and> K \<le> 4 \<and> int (length (mrows A)) = 3 ^ nat K - 1 \<and>
      (\<forall>i < length (mrows A). \<forall>j < nat K.
         deq (coeff A i (j + 1)) (double_of_int (K2OCTAHEDRON_COEFS env (nat K) i j))))"

section \<open>Exact values of rows at vertices\<close>






section \<open>The contract of the vertex enumerator and the quadrant splitter\<close>




text \<open>The PDD that line 88 stores for a quadrant without vertices.\<close>

definition empty_pdd :: "nat \<Rightarrow> PDD" where
  "empty_pdd K =
     \<lparr>pdd_dim = int K + 1, pdd_V = \<lparr>mrows = [], mcols = K + 1\<rparr>,
      pdd_H = \<lparr>mrows = [], mcols = K + 1\<rparr>, pdd_incidence = []\<rparr>"

section \<open>The embedding of a vertex, in the words of the specification\<close>

text \<open>The specification's row of the combined vertex matrix for a vertex \<open>v\<close> of a quadrant:
  the \<open>K + 1\<close> input coordinates first, then one output column per dimension, holding the
  coordinate for a \<open>PLUS\<close> sign and zero for a \<open>MINUS\<close> sign.\<close>

definition embed_vertex :: "nat \<Rightarrow> Quadrant \<Rightarrow> rat list \<Rightarrow> rat list" where
  "embed_vertex K quadrant v =
     take (K + 1) v @ map (\<lambda>i. if quadrant ! i = PLUS then v ! (1 + i) else 0) [0..<K]"

text \<open>The combined vertex matrix of the specification: the rows of all quadrants, in the
  order of the quadrants and of their vertices; and the number of vertices over all
  quadrants.\<close>

definition embed_quadrants :: "nat \<Rightarrow> (Quadrant \<times> QuadrantInfo) list \<Rightarrow> rat list list" where
  "embed_quadrants K quadrant2info =
     concat (map (\<lambda>(quadrant, info). map (embed_vertex K quadrant) (qi_V info)) quadrant2info)"

definition count_vertices :: "(Quadrant \<times> QuadrantInfo) list \<Rightarrow> nat" where
  "count_vertices quadrant2info =
     sum_list (map (\<lambda>(quadrant, info). length (qi_V info)) quadrant2info)"

text \<open>The shape of what \<^verbatim>\<open>compute_quadrants_with_cdd\<close> returns: a quadrant has (at least) \<open>K\<close>
  sign labels and a vertex array (at least) \<open>K + 1\<close> coordinates.\<close>

definition quadrants_shape :: "nat \<Rightarrow> (Quadrant \<times> QuadrantInfo) list \<Rightarrow> bool" where
  "quadrants_shape K quadrant2info =
     (\<forall>(quadrant, info) \<in> set quadrant2info.
        K \<le> length quadrant \<and> (\<forall>v \<in> set (qi_V info). K + 1 \<le> length v))"

section \<open>Concrete inputs\<close>

text \<open>A coefficient table for \<open>K = 1\<close> and \<open>K = 2\<close>, and three inputs with \<open>K = 1\<close>: the
  interval \<open>-1 \<le> x \<le> 2\<close>, the same with a row too many, and an input with six columns.\<close>

definition example_coefs :: "nat \<Rightarrow> int list list" where
  "example_coefs K =
     (if K = 1 then [[1], [- 1]]
      else if K = 2 then [[1, 1], [1, 0], [1, - 1], [0, 1], [0, - 1], [- 1, 1], [- 1, 0], [- 1, - 1]]
      else [])"

definition example_A1 :: matrix where
  "example_A1 = \<lparr>mrows = [[Num 1, Num 1], [Num 2, Num (- 1)]], mcols = 2\<rparr>"

definition example_A1_bad :: matrix where
  "example_A1_bad =
     \<lparr>mrows = [[Num 1, Num 1], [Num 2, Num (- 1)], [Num 3, Num 1]], mcols = 2\<rparr>"

definition example_A_wide :: matrix where
  "example_A_wide = \<lparr>mrows = [[Num 1, Num 1, Num 0, Num 0, Num 0, Num 0]], mcols = 6\<rparr>"

text \<open>For \<open>K = 2\<close>, the square \<open>[-1, 1]\<^sup>2\<close>, and two of its quadrants: an empty one, and the
  quadrant \<open>x \<ge> 0, y \<ge> 0\<close> with the four vertices of \<open>[0, 1]\<^sup>2\<close> and their incidence with the
  eight rows of the input and the two sign constraints.\<close>

definition example_A2 :: matrix where
  "example_A2 =
     \<lparr>mrows = [[Num 2, Num 1, Num 1], [Num 1, Num 1, Num 0], [Num 2, Num 1, Num (- 1)],
               [Num 1, Num 0, Num 1], [Num 1, Num 0, Num (- 1)], [Num 2, Num (- 1), Num 1],
               [Num 1, Num (- 1), Num 0], [Num 2, Num (- 1), Num (- 1)]],
      mcols = 3\<rparr>"

definition example_quadrants :: "(Quadrant \<times> QuadrantInfo) list" where
  "example_quadrants =
     [([MINUS, MINUS], \<lparr>qi_V = [], V_to_H_incidence = []\<rparr>),
      ([PLUS, PLUS],
       \<lparr>qi_V = [[1, 0, 0], [1, 1, 0], [1, 0, 1], [1, 1, 1]],
        V_to_H_incidence =
          [[False, False, False, False, False, False, False, False, True, True],
           [False, False, False, False, False, False, True, False, False, True],
           [False, False, False, False, True, False, False, False, True, False],
           [False, False, False, False, True, False, True, True, False, False]]\<rparr>)]"

definition example_pdd :: PDD where
  "example_pdd =
     \<lparr>pdd_dim = 3,
      pdd_V = \<lparr>mrows = [[Num 1, Num 0, Num 0], [Num 1, Num 1, Num 0],
                        [Num 1, Num 0, Num 1], [Num 1, Num 1, Num 1]], mcols = 3\<rparr>,
      pdd_H = \<lparr>mrows = [[Num 1, Num 0, Num (- 1)], [Num 1, Num (- 1), Num 0],
                        [Num 0, Num 1, Num 0], [Num 0, Num 0, Num 1]], mcols = 3\<rparr>,
      pdd_incidence =
        [[False, False, True, True], [False, True, False, True],
         [True, False, True, False], [True, True, False, False]]\<rparr>"

text \<open>For \<open>K = 1\<close>: the two quadrants of the interval \<open>[-1, 2]\<close>.\<close>

definition example_quadrants_1 :: "(Quadrant \<times> QuadrantInfo) list" where
  "example_quadrants_1 =
     [([MINUS], \<lparr>qi_V = [[1, - 1], [1, 0]],
                 V_to_H_incidence = [[True, False, False], [False, False, True]]\<rparr>),
      ([PLUS], \<lparr>qi_V = [[1, 0], [1, 2]],
                V_to_H_incidence = [[False, False, True], [False, True, False]]\<rparr>)]"

definition example_env :: "(unit, unit) collaborators" where
  "example_env =
     \<lparr>K2OCTAHEDRON_COEFS = (\<lambda>K i j. example_coefs K ! i ! j),
      compute_octahedron_V = (\<lambda>A. \<lparr>oct_V = [], oct_incidence = [], orthant_adjacencies = ()\<rparr>),
      split_in_quadrants = (\<lambda>V incidence adj K. example_quadrants),
      compute_maximal_indexes = (\<lambda>incidence. [4, 6, 8, 9]),
      mpq_get_d = round_toward_zero,
      merged_maximal = (\<lambda>rows h. True),
      compute_quadrants_with_cdd =
        (\<lambda>A. if mcols A = 2 then example_quadrants_1 else example_quadrants),
      dd_NoError = 17,
      dd_DDMatrix2Poly = (\<lambda>vertices. (17, ())),
      dd_CopyInequalities = (\<lambda>poly. [[0, 0, 1], [0, - 1, 1], [2, 2, - 3]]),
      cdd2eigen =
        (\<lambda>inequalities. \<lparr>mrows = map (map round_toward_zero) inequalities, mcols = 3\<rparr>)\<rparr>"







section \<open>Rounding\<close>

lemma bit_length_le: "n < 2 ^ k \<Longrightarrow> bit_length n \<le> k"
proof (induction k arbitrary: n)
  case 0
  then show ?case by (simp add: bit_length.simps)
next
  case (Suc k)
  then have "n div 2 < 2 ^ k" by auto
  from Suc.IH[OF this] show ?case by (subst bit_length.simps) simp
qed

lemma bit_length_ge: "2 ^ k \<le> n \<Longrightarrow> Suc k \<le> bit_length n"
proof (induction k arbitrary: n)
  case 0
  then show ?case by (subst bit_length.simps) simp
next
  case (Suc k)
  then have "2 ^ k \<le> n div 2" by auto
  moreover have "0 < (2::nat) ^ Suc k" by simp
  with Suc.prems have "n \<noteq> 0" by linarith
  ultimately show ?case using Suc.IH[of "n div 2"] by (subst bit_length.simps) simp
qed

lemma floor_rat_numeral [simp]: "\<lfloor>numeral a / numeral b :: rat\<rfloor> = numeral a div numeral b"
  by (metis floor_divide_of_int_eq of_int_numeral)

lemma floor_rat_one_numeral [simp]: "\<lfloor>1 / numeral b :: rat\<rfloor> = 1 div numeral b"
  by (metis floor_divide_of_int_eq of_int_numeral of_int_1)

lemma scaled_nonneg: "0 \<le> scaled x"
  by (simp add: scaled_def)

lemma nat_floor_less:
  assumes "(y::rat) < 2 ^ k" and "0 \<le> y"
  shows "nat \<lfloor>y\<rfloor> < 2 ^ k"
proof -
  have "\<lfloor>y\<rfloor> < 2 ^ k" using assms(1) by (simp add: floor_less_iff)
  moreover have "0 \<le> \<lfloor>y\<rfloor>" using assms(2) by simp
  ultimately show ?thesis
    by (metis nat_less_iff of_nat_numeral of_nat_power)
qed

lemma nat_floor_ge:
  assumes "2 ^ k \<le> (y::rat)"
  shows "2 ^ k \<le> nat \<lfloor>y\<rfloor>"
proof -
  have "(2::int) ^ k \<le> \<lfloor>y\<rfloor>" using assms by (simp add: le_floor_iff)
  then show ?thesis
    by (metis nat_mono nat_numeral nat_power_eq zero_le_numeral)
qed

lemma shift_small: "scaled x < 2 ^ 53 \<Longrightarrow> shift x = 0"
  using bit_length_le[OF nat_floor_less[OF _ scaled_nonneg], of x 53]
  by (simp add: shift_def)

lemma shift_normal:
  assumes "2 ^ (52 + s) \<le> scaled x" and "scaled x < 2 ^ (53 + s)"
  shows "shift x = s"
  using bit_length_ge[OF nat_floor_ge[OF assms(1)]]
    bit_length_le[OF nat_floor_less[OF assms(2) scaled_nonneg]]
  by (simp add: shift_def)

lemma shift_mantissa:
  assumes "scaled x = of_int n * 2 ^ s" and "n < 2 ^ 53" and "2 ^ 52 \<le> n \<or> s = 0"
  shows "shift x = s"
proof (cases "2 ^ 52 \<le> n")
  case True
  have "(2::rat) ^ (52 + s) = of_int (2 ^ 52) * 2 ^ s" by (simp add: power_add)
  also have "\<dots> \<le> of_int n * 2 ^ s" using True by (intro mult_right_mono) simp_all
  finally have 1: "2 ^ (52 + s) \<le> scaled x" using assms(1) by simp
  have "of_int n * (2::rat) ^ s < of_int (2 ^ 53) * 2 ^ s"
    using assms(2) by (intro mult_strict_right_mono) simp_all
  also have "\<dots> = 2 ^ (53 + s)" by (simp add: power_add)
  finally have 2: "scaled x < 2 ^ (53 + s)" using assms(1) by simp
  from shift_normal[OF 1 2] show ?thesis .
next
  case False
  with assms(3) have s: "s = 0" by simp
  have "scaled x < 2 ^ 53" using assms(1,2) s
    by (metis mult.right_neutral of_int_less_numeral_power_cancel_iff power_0)
  from shift_small[OF this] s show ?thesis by simp
qed

lemma rne_of_int: "rne (of_int n) = n"
  by (simp add: rne_def)

text \<open>A double rounds to itself, in both modes.\<close>

lemma round_exact:
  assumes "scaled x = of_int n * 2 ^ s" and "n < 2 ^ 53" and "2 ^ 52 \<le> n \<or> s = 0"
    and "x \<noteq> 0" and "\<bar>x\<bar> < 2 ^ 1024"
  shows "round_nearest x = Num x" and "round_toward_zero x = Num x"
proof -
  have sh: "shift x = s" by (rule shift_mantissa[OF assms(1,2,3)])
  have q: "scaled x / 2 ^ shift x = of_int n" using assms(1) sh by simp
  have m: "of_int n * ulp x = \<bar>x\<bar>"
    using assms(1) sh by (simp add: ulp_def scaled_def)
  show "round_nearest x = Num x"
    using assms(4,5) by (simp add: round_nearest_def q rne_of_int m make_double_def)
  show "round_toward_zero x = Num x"
    using assms(4,5) by (simp add: round_toward_zero_def q m make_double_def)
qed

lemma round_nearest_normal:
  assumes "2 ^ (52 + s) \<le> scaled x" and "scaled x < 2 ^ (53 + s)"
  shows "round_nearest x = make_double (x < 0) (of_int (rne (scaled x / 2 ^ s)) * (2 ^ s / 2 ^ 1074))"
  by (simp add: round_nearest_def shift_normal[OF assms] ulp_def)

lemma round_nearest_small:
  assumes "scaled x < 2 ^ 53"
  shows "round_nearest x = make_double (x < 0) (of_int (rne (scaled x)) / 2 ^ 1074)"
  by (simp add: round_nearest_def shift_small[OF assms] ulp_def)











text \<open>Roundings of the concrete inputs.\<close>

lemma round_toward_zero_0: "round_toward_zero 0 = Num 0"
  by (subst round_toward_zero_def) (simp add: scaled_def make_double_def signed_zero_def)

lemma round_toward_zero_1: "round_toward_zero 1 = Num 1"
  by (rule round_exact(2)[where n = "2 ^ 52" and s = 1022]) (simp_all add: scaled_def)

lemma round_toward_zero_m1: "round_toward_zero (- 1) = Num (- 1)"
  by (rule round_exact(2)[where n = "2 ^ 52" and s = 1022]) (simp_all add: scaled_def)

lemma round_toward_zero_2: "round_toward_zero 2 = Num 2"
  by (rule round_exact(2)[where n = "2 ^ 52" and s = 1023]) (simp_all add: scaled_def)

lemma round_toward_zero_m3: "round_toward_zero (- 3) = Num (- 3)"
  by (rule round_exact(2)[where n = "3 * 2 ^ 51" and s = 1023]) (simp_all add: scaled_def)



lemma round_nearest_1: "round_nearest 1 = Num 1"
  by (rule round_exact(1)[where n = "2 ^ 52" and s = 1022]) (simp_all add: scaled_def)

lemma round_nearest_m1: "round_nearest (- 1) = Num (- 1)"
  by (rule round_exact(1)[where n = "2 ^ 52" and s = 1022]) (simp_all add: scaled_def)

lemma round_nearest_2: "round_nearest 2 = Num 2"
  by (rule round_exact(1)[where n = "2 ^ 52" and s = 1023]) (simp_all add: scaled_def)

lemma round_nearest_3: "round_nearest 3 = Num 3"
  by (rule round_exact(1)[where n = "3 * 2 ^ 51" and s = 1023]) (simp_all add: scaled_def)

lemma round_nearest_half: "round_nearest (1 / 2) = Num (1 / 2)"
  by (rule round_exact(1)[where n = "2 ^ 52" and s = 1021]) (simp_all add: scaled_def)

lemma round_nearest_two_thirds:
  "round_nearest (2 / 3) = Num (6004799503160661 / 9007199254740992)"
  by (subst round_nearest_normal[where s = 1021])
    (simp_all add: scaled_def rne_def Let_def make_double_def)









lemma round_nearest_underflow: "round_nearest (1 / 2 ^ 1200) = Num 0"
  by (subst round_nearest_small)
    (simp_all add: scaled_def rne_def Let_def make_double_def signed_zero_def)

lemma round_nearest_tiny: "round_nearest (1 / 2 ^ 600) = Num (1 / 2 ^ 600)"
  by (rule round_exact(1)[where n = "2 ^ 52" and s = 422]) (simp_all add: scaled_def)

lemma round_nearest_tiny_neg: "round_nearest (- (1 / 2 ^ 600)) = Num (- (1 / 2 ^ 600))"
  by (rule round_exact(1)[where n = "2 ^ 52" and s = 422]) (simp_all add: scaled_def)

lemma round_nearest_tiny2: "round_nearest (1 / 2 ^ 599) = Num (1 / 2 ^ 599)"
  by (rule round_exact(1)[where n = "2 ^ 52" and s = 423]) (simp_all add: scaled_def)

lemma round_nearest_huge: "round_nearest (2 ^ 700) = Num (2 ^ 700)"
  by (rule round_exact(1)[where n = "2 ^ 52" and s = 1722]) (simp_all add: scaled_def)

lemma round_nearest_huge_neg: "round_nearest (- (2 ^ 700)) = Num (- (2 ^ 700))"
  by (rule round_exact(1)[where n = "2 ^ 52" and s = 1722]) (simp_all add: scaled_def)

lemma round_nearest_huge2: "round_nearest (2 ^ 701) = Num (2 ^ 701)"
  by (rule round_exact(1)[where n = "2 ^ 52" and s = 1723]) (simp_all add: scaled_def)

lemma round_nearest_overflow: "round_nearest (2 ^ 1400) = PInf"
  by (subst round_nearest_normal[where s = 2422])
    (simp_all add: scaled_def rne_def Let_def make_double_def signed_inf_def)

lemma round_nearest_max: "round_nearest (2 ^ 1023) = Num (2 ^ 1023)"
  by (rule round_exact(1)[where n = "2 ^ 52" and s = 2045]) (simp_all add: scaled_def)

lemma round_nearest_max_neg: "round_nearest (- (2 ^ 1023)) = Num (- (2 ^ 1023))"
  by (rule round_exact(1)[where n = "2 ^ 52" and s = 2045]) (simp_all add: scaled_def)

lemma round_nearest_overflow2: "round_nearest (2 ^ 1024) = PInf"
  by (subst round_nearest_normal[where s = 2046])
    (simp_all add: scaled_def rne_def Let_def make_double_def signed_inf_def)

lemma round_nearest_overflow3: "round_nearest (2 ^ 2046) = PInf"
  by (subst round_nearest_normal[where s = 3068])
    (simp_all add: scaled_def rne_def Let_def make_double_def signed_inf_def)

section \<open>Properties of relu_1\<close>

lemma relu_1_cols: "relu_1 lb ub = Inr H \<Longrightarrow> mcols H = 3 \<and> wf_matrix H \<and> length (mrows H) = 3"
  by (auto simp: relu_1_def Let_def wf_matrix_def split: if_splits)

lemma dmul_underflow: "dmul (Num (1 / 2 ^ 600)) (Num (1 / 2 ^ 600)) = Num 0"
proof -
  have "(1 / 2 ^ 600 :: rat) * (1 / 2 ^ 600) = 1 / 2 ^ 1200" by (simp add: power_add [symmetric])
  then show ?thesis using round_nearest_underflow
    by (simp add: dmul_def is_nan_def is_inf_def dval_def)
qed

lemma dsub_tiny: "dsub (Num (1 / 2 ^ 600)) (Num (- (1 / 2 ^ 600))) = Num (1 / 2 ^ 599)"
proof -
  have "(1 / 2 ^ 600 :: rat) + 1 / 2 ^ 600 = 1 / 2 ^ 599" by simp
  then show ?thesis using round_nearest_tiny2
    by (simp add: dsub_def dadd_def dneg_def is_nan_def is_inf_def dval_def)
qed

text \<open>
  Claim C5.  \<^verbatim>\<open>relu_1\<close> fails if and only if \<open>lb > ub\<close> or \<open>lb < 0 < ub\<close> does not hold; for
  every pair \<open>lb < 0 < ub\<close> it returns a matrix.  The code does not: \<open>lb = -2\<^sup>-\<^sup>6\<^sup>0\<^sup>0\<close> and
  \<open>ub = 2\<^sup>-\<^sup>6\<^sup>0\<^sup>0\<close> are doubles with \<open>lb \<le> ub\<close> and \<open>lb < 0 < ub\<close>, both input checks pass, the
  product \<^verbatim>\<open>-lb * ub\<close> underflows to zero, \<^verbatim>\<open>lmd\<close> is \<open>0\<close>, and the assertion
  \<^verbatim>\<open>lmd > 0\<close> of \<^verbatim>\<open>relu_1\<close> fails.
\<close>

theorem relu_1_underflow:
  "is_double (Num (- (1 / 2 ^ 600))) \<and> is_double (Num (1 / 2 ^ 600)) \<and>
   dle (Num (- (1 / 2 ^ 600))) (Num (1 / 2 ^ 600)) \<and>
   dlt (Num (- (1 / 2 ^ 600))) (Num 0) \<and> dlt (Num 0) (Num (1 / 2 ^ 600)) \<and>
   relu_1 (Num (- (1 / 2 ^ 600))) (Num (1 / 2 ^ 600)) = Inl (AssertFailed ''Expected lmd > 0.'')"
proof -
  have 1: "is_double (Num (- (1 / 2 ^ 600)))" using round_nearest_tiny_neg
    by (simp add: is_double_def)
  have 2: "is_double (Num (1 / 2 ^ 600))" using round_nearest_tiny
    by (simp add: is_double_def)
  have 3: "dle (Num (- (1 / 2 ^ 600))) (Num (1 / 2 ^ 600))"
    by (simp add: dle_def is_nan_def dval_def)
  have 4: "dlt (Num (- (1 / 2 ^ 600))) (Num 0)" by (simp add: dlt_def is_nan_def dval_def)
  have 5: "dlt (Num 0) (Num (1 / 2 ^ 600))" by (simp add: dlt_def is_nan_def dval_def)
  have n: "dneg (Num (- (1 / 2 ^ 600))) = Num (1 / 2 ^ 600)" by (simp add: dneg_def)
  have l: "ddiv (Num 0) (Num (1 / 2 ^ 599)) = Num 0"
    by (simp add: ddiv_def is_nan_def is_inf_def is_zero_def is_finite_def dval_def
        signed_zero_def sign_bit_def)
  have 6: "relu_1 (Num (- (1 / 2 ^ 600))) (Num (1 / 2 ^ 600)) = Inl (AssertFailed ''Expected lmd > 0.'')"
    unfolding relu_1_def Let_def n dmul_underflow dsub_tiny l using 3 4 5
    by (simp add: dlt_def)
  from 1 2 3 4 5 6 show ?thesis by blast
qed

lemma dmul_overflow: "dmul (Num (2 ^ 700)) (Num (2 ^ 700)) = PInf"
proof -
  have "(2 ^ 700 :: rat) * 2 ^ 700 = 2 ^ 1400" by (simp add: power_add [symmetric])
  then show ?thesis using round_nearest_overflow
    by (simp add: dmul_def is_nan_def is_inf_def dval_def)
qed

lemma dsub_huge: "dsub (Num (2 ^ 700)) (Num (- (2 ^ 700))) = Num (2 ^ 701)"
proof -
  have "(2 ^ 700 :: rat) + 2 ^ 700 = 2 ^ 701" by simp
  then show ?thesis using round_nearest_huge2
    by (simp add: dsub_def dadd_def dneg_def is_nan_def is_inf_def dval_def)
qed

lemma ddiv_huge: "ddiv (Num (2 ^ 700)) (Num (2 ^ 701)) = Num (1 / 2)"
proof -
  have "(2 ^ 700 :: rat) / 2 ^ 701 = 1 / 2" by simp
  then show ?thesis using round_nearest_half
    by (simp add: ddiv_def is_nan_def is_inf_def is_zero_def is_finite_def dval_def)
qed

lemma dmul_max: "dmul (Num (2 ^ 1023)) (Num (2 ^ 1023)) = PInf"
proof -
  have "(2 ^ 1023 :: rat) * 2 ^ 1023 = 2 ^ 2046" by (simp add: power_add [symmetric])
  then show ?thesis using round_nearest_overflow3
    by (simp add: dmul_def is_nan_def is_inf_def dval_def)
qed

lemma dsub_max: "dsub (Num (2 ^ 1023)) (Num (- (2 ^ 1023))) = PInf"
proof -
  have "(2 ^ 1023 :: rat) + 2 ^ 1023 = 2 ^ 1024" by simp
  then show ?thesis using round_nearest_overflow2
    by (simp add: dsub_def dadd_def dneg_def is_nan_def is_inf_def dval_def)
qed

text \<open>
  Claim C2.  For \<open>lb < 0 < ub\<close>, \<^verbatim>\<open>relu_1\<close> returns exactly the rows \<open>(0, 0, 1)\<close>,
  \<open>(0, -1, 1)\<close> and \<open>(lmd, mu, -1)\<close> with \<open>mu = ub / (ub - lb)\<close> and
  \<open>lmd = -lb \<cdot> ub / (ub - lb)\<close>.  The code does not: for the doubles \<open>lb = -2\<^sup>7\<^sup>0\<^sup>0\<close> and
  \<open>ub = 2\<^sup>7\<^sup>0\<^sup>0\<close> the product \<^verbatim>\<open>-lb * ub\<close> overflows and the third row returned is
  \<open>(+\<infinity>, 1/2, -1)\<close>, while \<open>-lb \<cdot> ub / (ub - lb) = 2\<^sup>6\<^sup>9\<^sup>9\<close> is a double; for \<open>lb = -2\<^sup>1\<^sup>0\<^sup>2\<^sup>3\<close> and
  \<open>ub = 2\<^sup>1\<^sup>0\<^sup>2\<^sup>3\<close> the difference \<^verbatim>\<open>ub - lb\<close> overflows too, \<^verbatim>\<open>lmd\<close> is a NaN, and the assertion
  \<^verbatim>\<open>lmd > 0\<close> of \<^verbatim>\<open>relu_1\<close> fails.
\<close>

theorem relu_1_overflow:
  "is_double (Num (- (2 ^ 700))) \<and> is_double (Num (2 ^ 700)) \<and>
   dlt (Num (- (2 ^ 700))) (Num 0) \<and> dlt (Num 0) (Num (2 ^ 700)) \<and>
   relu_1 (Num (- (2 ^ 700))) (Num (2 ^ 700)) =
     Inr \<lparr>mrows = [[Num 0, Num 0, Num 1], [Num 0, Num (- 1), Num 1], [PInf, Num (1 / 2), Num (- 1)]],
          mcols = 3\<rparr> \<and>
   is_double (Num (- (2 ^ 1023))) \<and> is_double (Num (2 ^ 1023)) \<and>
   dlt (Num (- (2 ^ 1023))) (Num 0) \<and> dlt (Num 0) (Num (2 ^ 1023)) \<and>
   relu_1 (Num (- (2 ^ 1023))) (Num (2 ^ 1023)) = Inl (AssertFailed ''Expected lmd > 0.'')"
proof -
  have 1: "is_double (Num (- (2 ^ 700)))" using round_nearest_huge_neg
    by (simp add: is_double_def)
  have 2: "is_double (Num (2 ^ 700))" using round_nearest_huge
    by (simp add: is_double_def)
  have 3: "dle (Num (- (2 ^ 700))) (Num (2 ^ 700))" by (simp add: dle_def is_nan_def dval_def)
  have 4: "dlt (Num (- (2 ^ 700))) (Num 0)" by (simp add: dlt_def is_nan_def dval_def)
  have 5: "dlt (Num 0) (Num (2 ^ 700))" by (simp add: dlt_def is_nan_def dval_def)
  have n: "dneg (Num (- (2 ^ 700))) = Num (2 ^ 700)" by (simp add: dneg_def)
  have l: "ddiv PInf (Num (2 ^ 701)) = PInf"
    by (simp add: ddiv_def is_nan_def is_inf_def signed_inf_def sign_bit_def)
  have 6: "relu_1 (Num (- (2 ^ 700))) (Num (2 ^ 700)) =
     Inr \<lparr>mrows = [[Num 0, Num 0, Num 1], [Num 0, Num (- 1), Num 1], [PInf, Num (1 / 2), Num (- 1)]],
          mcols = 3\<rparr>"
    unfolding relu_1_def Let_def n dmul_overflow dsub_huge l ddiv_huge using 3 4 5
    by (simp add: dlt_def is_nan_def dval_def)
  have 7: "is_double (Num (- (2 ^ 1023)))" using round_nearest_max_neg
    by (simp add: is_double_def)
  have 8: "is_double (Num (2 ^ 1023))" using round_nearest_max
    by (simp add: is_double_def)
  have 9: "dle (Num (- (2 ^ 1023))) (Num (2 ^ 1023))" by (simp add: dle_def is_nan_def dval_def)
  have 10: "dlt (Num (- (2 ^ 1023))) (Num 0)" by (simp add: dlt_def is_nan_def dval_def)
  have 11: "dlt (Num 0) (Num (2 ^ 1023))" by (simp add: dlt_def is_nan_def dval_def)
  have n': "dneg (Num (- (2 ^ 1023))) = Num (2 ^ 1023)" by (simp add: dneg_def)
  have l': "ddiv PInf PInf = NaN" by (simp add: ddiv_def is_nan_def is_inf_def)
  have 12: "relu_1 (Num (- (2 ^ 1023))) (Num (2 ^ 1023)) = Inl (AssertFailed ''Expected lmd > 0.'')"
    unfolding relu_1_def Let_def n' dmul_max dsub_max l' using 9 10 11
    by (simp add: dlt_def is_nan_def)
  from 1 2 4 5 6 7 8 10 11 12 show ?thesis by blast
qed

text \<open>The interval \<open>[-1, 2]\<close>: \<^verbatim>\<open>mu\<close> and \<^verbatim>\<open>lmd\<close> are the double nearest to \<open>2/3\<close>.\<close>

lemma relu_1_example:
  "relu_1 (Num (- 1)) (Num 2) =
     Inr \<lparr>mrows = [[Num 0, Num 0, Num 1], [Num 0, Num (- 1), Num 1],
                    [Num (6004799503160661 / 9007199254740992),
                     Num (6004799503160661 / 9007199254740992), Num (- 1)]],
          mcols = 3\<rparr>"
proof -
  have n: "dneg (Num (- 1)) = Num 1" by (simp add: dneg_def)
  have m: "dmul (Num 1) (Num 2) = Num 2"
    using round_nearest_2
    by (simp add: dmul_def is_nan_def is_inf_def dval_def)
  have s: "dsub (Num 2) (Num (- 1)) = Num 3"
    using round_nearest_3
    by (simp add: dsub_def dadd_def dneg_def is_nan_def is_inf_def dval_def)
  have d: "ddiv (Num 2) (Num 3) = Num (6004799503160661 / 9007199254740992)"
    using round_nearest_two_thirds
    by (simp add: ddiv_def is_nan_def is_inf_def is_zero_def is_finite_def dval_def)
  show ?thesis
    unfolding relu_1_def Let_def n m s d
    by (simp add: dlt_def dle_def is_nan_def dval_def)
qed

text \<open>The input checks of \<^verbatim>\<open>relu_1\<close>: it fails with an \<^verbatim>\<open>ASRTF\<close> error exactly when \<open>lb \<le> ub\<close>
  or \<open>lb < 0 < ub\<close> does not hold.\<close>

lemma relu_1_rejects:
  "(\<exists>msg. relu_1 lb ub = Inl (ASRTF msg)) \<longleftrightarrow> \<not> (dle lb ub \<and> dlt lb (Num 0) \<and> dlt (Num 0) ub)"
  by (auto simp: relu_1_def Let_def)

section \<open>Properties of transpose_incidence\<close>

lemma set_cols_length: "length (set_cols in_row row cols out) = length out"
  by (induction cols arbitrary: out) auto

lemma update_bit_length:
  "c < length out \<Longrightarrow> length (out[a := (out ! a)[row := True]] ! c) = length (out ! c)"
  by (cases "a = c") simp_all

lemma update_bit_nth:
  "c < length out \<Longrightarrow> r < length (out ! c) \<Longrightarrow>
   out[a := (out ! a)[row := True]] ! c ! r = ((a = c \<and> r = row) \<or> out ! c ! r)"
  by (cases "a = c"; cases "r = row") (simp_all add: nth_list_update)

lemma set_cols_inner_length:
  "c < length out \<Longrightarrow> length (set_cols in_row row cols out ! c) = length (out ! c)"
  by (induction cols arbitrary: out) (simp_all add: update_bit_length)

lemma set_cols_nth:
  "c < length out \<Longrightarrow> r < length (out ! c) \<Longrightarrow>
   set_cols in_row row cols out ! c ! r = ((r = row \<and> c \<in> set cols \<and> in_row ! c) \<or> out ! c ! r)"
proof (induction cols arbitrary: out)
  case Nil
  then show ?case by simp
next
  case (Cons a cols)
  show ?case
  proof (cases "in_row ! a")
    case False
    then show ?thesis using Cons by auto
  next
    case True
    let ?out = "out[a := (out ! a)[row := True]]"
    have 1: "c < length ?out" using Cons.prems by simp
    have 2: "r < length (?out ! c)" using Cons.prems by (simp add: update_bit_length)
    show ?thesis
      using True Cons.IH[OF 1 2] Cons.prems by (auto simp: update_bit_nth)
  qed
qed

lemma transpose_rows_char:
  assumes "\<forall>r \<in> set rows. r < n \<and> length (input ! r) = num_cols"
    and "length out = num_cols"
    and "\<forall>c < num_cols. length (out ! c) = n"
  shows "\<exists>T. transpose_rows input num_cols rows out = Inr T \<and> length T = num_cols \<and>
           (\<forall>c < num_cols. length (T ! c) = n \<and>
              (\<forall>r < n. T ! c ! r = ((r \<in> set rows \<and> input ! r ! c) \<or> out ! c ! r)))"
  using assms
proof (induction rows arbitrary: out)
  case Nil
  then show ?case by simp
next
  case (Cons row rows)
  let ?out = "set_cols (input ! row) row [0..<num_cols] out"
  have len: "length ?out = num_cols" using Cons.prems by (simp add: set_cols_length)
  have inner: "\<forall>c < num_cols. length (?out ! c) = n"
    using Cons.prems by (simp add: set_cols_inner_length)
  have rows: "\<forall>r \<in> set rows. r < n \<and> length (input ! r) = num_cols"
    using Cons.prems by simp
  from Cons.IH[OF rows len inner] obtain T where
    T: "transpose_rows input num_cols rows ?out = Inr T" "length T = num_cols"
       "\<forall>c < num_cols. length (T ! c) = n \<and>
              (\<forall>r < n. T ! c ! r = ((r \<in> set rows \<and> input ! r ! c) \<or> ?out ! c ! r))"
    by blast
  have step: "transpose_rows input num_cols (row # rows) out = Inr T"
    using Cons.prems T(1) by simp
  have "\<forall>c < num_cols. \<forall>r < n. ?out ! c ! r = ((r = row \<and> input ! row ! c) \<or> out ! c ! r)"
    using Cons.prems by (auto simp: set_cols_nth)
  with T step show ?case by auto
qed

lemma transpose_incidence_char:
  assumes "input \<noteq> []" and "\<forall>b \<in> set input. length b = n"
  shows "\<exists>T. transpose_incidence input = Inr T \<and> length T = n \<and>
           (\<forall>c < n. length (T ! c) = length input \<and> (\<forall>r < length input. T ! c ! r = input ! r ! c))"
proof -
  have n: "length (input ! 0) = n" using assms by (cases input) auto
  have a: "\<forall>r \<in> set [0..<length input]. r < length input \<and> length (input ! r) = n"
    using assms by simp
  have b: "length (replicate n (replicate (length input) False)) = n" by simp
  have c: "\<forall>c < n. length (replicate n (replicate (length input) False) ! c) = length input" by simp
  from transpose_rows_char[OF a b c] show ?thesis
    using assms(1) n by (auto simp: transpose_incidence_def)
qed

text \<open>
  Claim C6.  For a non-empty list of bitsets that all have the same positive size,
  \<^verbatim>\<open>transpose_incidence\<close> succeeds and transposing its result gives the original list back.
\<close>

theorem transpose_incidence_roundtrip:
  assumes "input \<noteq> []" and "0 < n" and "\<forall>b \<in> set input. length b = n"
  shows "\<exists>T. transpose_incidence input = Inr T \<and> transpose_incidence T = Inr input"
proof -
  from transpose_incidence_char[OF assms(1,3)] obtain T where
    T: "transpose_incidence input = Inr T" "length T = n"
       "\<forall>c < n. length (T ! c) = length input \<and> (\<forall>r < length input. T ! c ! r = input ! r ! c)"
    by blast
  have T1: "T \<noteq> []" using T(2) assms(2) by auto
  have T2: "\<forall>b \<in> set T. length b = length input"
    using T(2,3) by (auto simp: in_set_conv_nth)
  from transpose_incidence_char[OF T1 T2] obtain U where
    U: "transpose_incidence T = Inr U" "length U = length input"
       "\<forall>c < length input. length (U ! c) = length T \<and> (\<forall>r < length T. U ! c ! r = T ! r ! c)"
    by blast
  have "U = input"
  proof (rule nth_equalityI)
    show "length U = length input" by (rule U(2))
  next
    fix i assume i: "i < length U"
    then have i': "i < length input" using U(2) by simp
    show "U ! i = input ! i"
    proof (rule nth_equalityI)
      show "length (U ! i) = length (input ! i)"
        using U(3) i' T(2) assms(3) by simp
    next
      fix j assume "j < length (U ! i)"
      then have j: "j < n" using U(3) i' T(2) by simp
      then show "U ! i ! j = input ! i ! j" using U(3) T(2,3) i' by simp
    qed
  qed
  with T(1) U(1) show ?thesis by simp
qed

theorem transpose_incidence_roundtrip_witness:
  "[[True, False, True], [False, False, True]] \<noteq> [] \<and> (0::nat) < 3 \<and>
   length [True, False, True] = 3 \<and> length [False, False, True] = 3 \<and>
   (\<exists>T. transpose_incidence [[True, False, True], [False, False, True]] = Inr T \<and>
        transpose_incidence T = Inr [[True, False, True], [False, False, True]])"
  using transpose_incidence_roundtrip[of "[[True, False, True], [False, False, True]]" 3]
  by simp

section \<open>Properties of verify_fkrelu_input and of the first steps of fkrelu\<close>

lemma verify_cols_eq:
  "verify_cols coef_row row js =
     (if \<forall>j \<in> set js. deq (row ! (j + 1)) (double_of_int (coef_row j)) then Inr ()
      else Inl (ASRTF ''Input is not of correct format.''))"
  by (induction js) simp_all

lemma verify_rows_eq:
  "verify_rows coefs A K is =
     (if \<forall>i \<in> set is. \<forall>j < K. deq (mrows A ! i ! (j + 1)) (double_of_int (coefs i j)) then Inr ()
      else Inl (ASRTF ''Input is not of correct format.''))"
  by (induction "is") (simp_all add: verify_cols_eq)

lemma verify_fkrelu_input_eq:
  "verify_fkrelu_input env A =
     (let K = int (mcols A) - 1 in
      if \<not> (1 \<le> K \<and> K \<le> 4) then Inl (ASRTF ''K should be within allowed range.'')
      else if \<not> int (length (mrows A)) = 3 ^ nat K - 1
      then Inl (ASRTF ''Unexpected number of rows in the input.'')
      else if \<not> (\<forall>i < length (mrows A). \<forall>j < nat K.
                 deq (coeff A i (j + 1)) (double_of_int (K2OCTAHEDRON_COEFS env (nat K) i j)))
      then Inl (ASRTF ''Input is not of correct format.'')
      else Inr ())"
  by (auto simp: verify_fkrelu_input_def verify_rows_eq POW3_def coeff_def Let_def)

lemma verify_accepts_iff: "verify_fkrelu_input env A = Inr () \<longleftrightarrow> octahedral_input env A"
  by (auto simp: verify_fkrelu_input_eq octahedral_input_def Let_def)

lemma example_A1_accepted: "verify_fkrelu_input example_env example_A1 = Inr ()"
  by (simp add: verify_fkrelu_input_def example_env_def example_A1_def example_coefs_def POW3_def
      deq_def double_of_int_def is_nan_def is_finite_def dval_def)

lemma example_A2_accepted: "verify_fkrelu_input example_env example_A2 = Inr ()"
  by (simp add: verify_fkrelu_input_def example_env_def example_A2_def example_coefs_def POW3_def
      upt_conv_Cons deq_def double_of_int_def is_nan_def is_finite_def dval_def)

lemma example_A1_bad_rejected:
  "fkrelu example_env example_A1_bad = Inl (ASRTF ''Unexpected number of rows in the input.'')"
  by (simp add: fkrelu_def verify_fkrelu_input_def example_env_def example_A1_bad_def POW3_def)

text \<open>On an accepted input with \<open>K = 1\<close>, \<^verbatim>\<open>fkrelu\<close> returns \<^verbatim>\<open>relu_1(-A(0, 0), A(1, 0))\<close>.\<close>

lemma fkrelu_K1:
  "verify_fkrelu_input env A = Inr () \<Longrightarrow> int (mcols A) - 1 = 1 \<Longrightarrow>
   fkrelu env A = relu_1 (dneg (coeff A 0 0)) (coeff A 1 0)"
  by (simp add: fkrelu_def)

text \<open>
  Claim C3.  Unless \<open>K = A.cols() - 1\<close> is in \<open>[1, 4]\<close>, \<open>A\<close> has exactly \<open>3^K - 1\<close> rows and
  every coefficient \<open>A(i, j + 1)\<close> equals entry \<open>j\<close> of row \<open>i\<close> of the table for \<open>K\<close>,
  \<^verbatim>\<open>fkrelu\<close> returns no matrix: it fails with one of the three input errors.  The check
  \<^verbatim>\<open>verify_fkrelu_input\<close> passes exactly on the inputs of that form.
\<close>

theorem fkrelu_rejects_malformed:
  "(\<not> octahedral_input env A \<longrightarrow>
      fkrelu env A \<in> {Inl (ASRTF ''K should be within allowed range.''),
                      Inl (ASRTF ''Unexpected number of rows in the input.''),
                      Inl (ASRTF ''Input is not of correct format.'')}) \<and>
   (verify_fkrelu_input env A = Inr () \<longleftrightarrow> octahedral_input env A)"
  by (auto simp: fkrelu_def verify_fkrelu_input_eq octahedral_input_def Let_def)

theorem fkrelu_rejects_malformed_witness:
  "\<not> octahedral_input example_env example_A1_bad \<and>
   fkrelu example_env example_A1_bad = Inl (ASRTF ''Unexpected number of rows in the input.'') \<and>
   octahedral_input example_env example_A2 \<and>
   verify_fkrelu_input example_env example_A2 = Inr ()"
  using fkrelu_rejects_malformed[of example_env example_A1_bad]
    fkrelu_rejects_malformed[of example_env example_A2]
    example_A1_bad_rejected example_A2_accepted
  by (simp add: octahedral_input_def example_A1_bad_def)

section \<open>Properties of the loop over the quadrants\<close>

lemma maximal_row_Inr:
  assumes "maximal_row A K quadrant inc m = Inr (h, b)"
  shows "0 \<le> m \<and> m < int (length inc) \<and> b = inc ! nat m \<and>
         (m < int (length (mrows A)) \<longrightarrow> h = mrows A ! nat m) \<and>
         (\<not> m < int (length (mrows A)) \<longrightarrow>
            nat (m - int (length (mrows A))) < K \<and>
            nat (m - int (length (mrows A))) < length quadrant \<and>
            h = (replicate (K + 1) (Num 0))[nat (m - int (length (mrows A))) + 1 :=
                  (if quadrant ! nat (m - int (length (mrows A))) = MINUS then Num (- 1) else Num 1)])"
  using assms by (auto simp: maximal_row_def Let_def split: if_splits)

lemma maximal_rows_Inr:
  "maximal_rows A K quadrant inc ms = Inr (hs, bs) \<Longrightarrow>
   length hs = length ms \<and> length bs = length ms \<and>
   (\<forall>i < length ms. maximal_row A K quadrant inc (ms ! i) = Inr (hs ! i, bs ! i))"
proof (induction ms arbitrary: hs bs)
  case Nil
  then show ?case by simp
next
  case (Cons m ms)
  from Cons.prems obtain h b hs' bs' where
    hd: "maximal_row A K quadrant inc m = Inr (h, b)" and
    tl: "maximal_rows A K quadrant inc ms = Inr (hs', bs')" and
    eq: "hs = h # hs'" "bs = b # bs'"
    by (auto split: sum.splits prod.splits)
  from Cons.IH[OF tl] hd eq show ?case
    by (auto simp: nth_Cons split: nat.splits)
qed

lemma quadrant_pdd_empty:
  "qi_V info = [] \<Longrightarrow> quadrant_pdd env A K quadrant info = Inr (empty_pdd K)"
  by (simp add: quadrant_pdd_def empty_pdd_def Let_def)

lemma quadrant_pdd_nonempty:
  assumes "qi_V info \<noteq> []" and "quadrant_pdd env A K quadrant info = Inr pdd"
  shows "\<exists>incT hs bs.
           transpose_incidence (V_to_H_incidence info) = Inr incT \<and>
           length incT = length (mrows A) + K \<and>
           maximal_rows A K quadrant incT (compute_maximal_indexes env incT) = Inr (hs, bs) \<and>
           pdd = \<lparr>pdd_dim = int K + 1, pdd_V = mpq_convert2eigen env (K + 1) (qi_V info),
                  pdd_H = \<lparr>mrows = hs, mcols = K + 1\<rparr>, pdd_incidence = bs\<rparr>"
  using assms
  by (auto simp: quadrant_pdd_def Let_def split: if_splits sum.splits prod.splits)

lemma fkrelu_quadrants_origin:
  "fkrelu_quadrants env A K q2info m = Inr m' \<Longrightarrow> m' quadrant = Some pdd \<Longrightarrow>
   m quadrant = Some pdd \<or>
   (\<exists>info. (quadrant, info) \<in> set q2info \<and> quadrant_pdd env A K quadrant info = Inr pdd)"
proof (induction q2info arbitrary: m)
  case Nil
  then show ?case by simp
next
  case (Cons entry rest)
  obtain q info where entry: "entry = (q, info)" by (cases entry)
  from Cons.prems(1) entry obtain p where
    p: "quadrant_pdd env A K q info = Inr p" and
    rest: "fkrelu_quadrants env A K rest (m(q \<mapsto> p)) = Inr m'"
    by (auto split: sum.splits)
  from Cons.IH[OF rest Cons.prems(2)] p entry show ?case
    by (auto split: if_splits)
qed

lemma fkrelu_quadrants_keeps:
  "fkrelu_quadrants env A K q2info m = Inr m' \<Longrightarrow> quadrant \<notin> fst ` set q2info \<Longrightarrow>
   m' quadrant = m quadrant"
proof (induction q2info arbitrary: m)
  case Nil
  then show ?case by simp
next
  case (Cons entry rest)
  obtain q info where entry: "entry = (q, info)" by (cases entry)
  from Cons.prems(1) entry obtain p where
    rest: "fkrelu_quadrants env A K rest (m(q \<mapsto> p)) = Inr m'"
    by (auto split: sum.splits)
  from Cons.prems(2) entry have "quadrant \<notin> fst ` set rest" "quadrant \<noteq> q" by auto
  with Cons.IH[OF rest] show ?case by simp
qed

lemma fkrelu_quadrants_records:
  "fkrelu_quadrants env A K q2info m = Inr m' \<Longrightarrow> distinct (map fst q2info) \<Longrightarrow>
   (quadrant, info) \<in> set q2info \<Longrightarrow>
   \<exists>pdd. quadrant_pdd env A K quadrant info = Inr pdd \<and> m' quadrant = Some pdd"
proof (induction q2info arbitrary: m)
  case Nil
  then show ?case by simp
next
  case (Cons entry rest)
  obtain q i where entry: "entry = (q, i)" by (cases entry)
  from Cons.prems(1) entry obtain p where
    p: "quadrant_pdd env A K q i = Inr p" and
    rest: "fkrelu_quadrants env A K rest (m(q \<mapsto> p)) = Inr m'"
    by (auto split: sum.splits)
  from Cons.prems(2) entry have d: "distinct (map fst rest)" and nq: "q \<notin> fst ` set rest"
    by auto
  show ?case
  proof (cases "(quadrant, info) \<in> set rest")
    case True
    from Cons.IH[OF rest d True] show ?thesis .
  next
    case False
    with Cons.prems(3) entry have eq: "quadrant = q" "info = i" by auto
    from fkrelu_quadrants_keeps[OF rest nq] have "m' q = Some p" by simp
    with p eq show ?thesis by simp
  qed
qed

lemma example_quadrant2info:
  "fkrelu_quadrant2info example_env example_A2 = example_quadrants"
  by (simp add: fkrelu_quadrant2info_def example_env_def)

lemma example_transpose:
  "transpose_incidence
     [[False, False, False, False, False, False, False, False, True, True],
      [False, False, False, False, False, False, True, False, False, True],
      [False, False, False, False, True, False, False, False, True, False],
      [False, False, False, False, True, False, True, True, False, False]] =
   Inr [[False, False, False, False], [False, False, False, False],
        [False, False, False, False], [False, False, False, False],
        [False, False, True, True], [False, False, False, False],
        [False, True, False, True], [False, False, False, True],
        [True, False, True, False], [True, True, False, False]]"
  by code_simp

lemma example_maximal_rows:
  "maximal_rows example_A2 2 [PLUS, PLUS]
     [[False, False, False, False], [False, False, False, False],
      [False, False, False, False], [False, False, False, False],
      [False, False, True, True], [False, False, False, False],
      [False, True, False, True], [False, False, False, True],
      [True, False, True, False], [True, True, False, False]] [4, 6, 8, 9] =
   Inr ([[Num 1, Num 0, Num (- 1)], [Num 1, Num (- 1), Num 0],
         [Num 0, Num 1, Num 0], [Num 0, Num 0, Num 1]],
        [[False, False, True, True], [False, True, False, True],
         [True, False, True, False], [True, True, False, False]])"
  by (simp add: maximal_row_def example_A2_def numeral_3_eq_3)

lemma example_A2_rows: "length (mrows example_A2) = 8"
  by (simp add: example_A2_def)

lemma example_quadrant_pdd:
  "quadrant_pdd example_env example_A2 2 [PLUS, PLUS] (snd (example_quadrants ! 1)) = Inr example_pdd"
  by (simp add: quadrant_pdd_def example_quadrants_def example_transpose mpq_convert2eigen_def
      example_env_def round_toward_zero_0 round_toward_zero_1 example_A2_rows example_maximal_rows example_pdd_def Let_def
      del: maximal_rows.simps)

lemma example_quadrant2pdd:
  "fkrelu_quadrant2pdd example_env example_A2 =
     Inr [[MINUS, MINUS] \<mapsto> empty_pdd 2, [PLUS, PLUS] \<mapsto> example_pdd]"
proof -
  have K: "nat (int (mcols example_A2) - 1) = 2" by (simp add: example_A2_def)
  have e: "quadrant_pdd example_env example_A2 2 [MINUS, MINUS]
             \<lparr>qi_V = [], V_to_H_incidence = []\<rparr> = Inr (empty_pdd 2)"
    by (simp add: quadrant_pdd_empty)
  show ?thesis
    unfolding fkrelu_quadrant2pdd_def example_quadrant2info K
    using e example_quadrant_pdd
    by (simp add: example_quadrants_def)
qed

text \<open>
  Claim C7.  For every quadrant with vertices that \<^verbatim>\<open>fkrelu\<close> processes, the halfspace matrix
  of its PDD has one row per maximal index; for the maximal index \<open>m\<close> at position \<open>i\<close>, row
  \<open>i\<close> is row \<open>m\<close> of \<open>A\<close> when \<open>m < A.rows()\<close>, and otherwise it is zero except in column
  \<open>(m - A.rows()) + 1\<close>, where it is \<open>-1\<close> if the quadrant's sign for dimension
  \<open>m - A.rows()\<close> is \<open>MINUS\<close> and \<open>+1\<close> if it is \<open>PLUS\<close>.  (A \<^verbatim>\<open>std::map\<close> holds one entry per
  key: the keys of \<^verbatim>\<open>quadrant2info\<close> are distinct.)
\<close>

theorem quadrant_halfspace_rows:
  assumes "distinct (map fst (fkrelu_quadrant2info env A))"
    and "(quadrant, info) \<in> set (fkrelu_quadrant2info env A)"
    and "qi_V info \<noteq> []"
    and "fkrelu_quadrant2pdd env A = Inr quadrant2pdd"
  shows "\<exists>pdd incT.
           quadrant2pdd quadrant = Some pdd \<and>
           transpose_incidence (V_to_H_incidence info) = Inr incT \<and>
           mcols (pdd_H pdd) = nat (int (mcols A) - 1) + 1 \<and>
           length (mrows (pdd_H pdd)) = length (compute_maximal_indexes env incT) \<and>
           (\<forall>i < length (compute_maximal_indexes env incT).
              (compute_maximal_indexes env incT ! i < int (length (mrows A)) \<longrightarrow>
                 mrows (pdd_H pdd) ! i = mrows A ! nat (compute_maximal_indexes env incT ! i)) \<and>
              (\<not> compute_maximal_indexes env incT ! i < int (length (mrows A)) \<longrightarrow>
                 mrows (pdd_H pdd) ! i =
                   (replicate (nat (int (mcols A) - 1) + 1) (Num 0))
                     [nat (compute_maximal_indexes env incT ! i - int (length (mrows A))) + 1 :=
                        (if quadrant ! nat (compute_maximal_indexes env incT ! i
                                             - int (length (mrows A))) = MINUS
                         then Num (- 1) else Num 1)]))"
proof -
  let ?K = "nat (int (mcols A) - 1)"
  from fkrelu_quadrants_records[OF assms(4)[unfolded fkrelu_quadrant2pdd_def] assms(1,2)]
  obtain pdd where pdd: "quadrant_pdd env A ?K quadrant info = Inr pdd"
    and look: "quadrant2pdd quadrant = Some pdd"
    by blast
  from quadrant_pdd_nonempty[OF assms(3) pdd] obtain incT hs bs where
    t: "transpose_incidence (V_to_H_incidence info) = Inr incT" and
    rows: "maximal_rows A ?K quadrant incT (compute_maximal_indexes env incT) = Inr (hs, bs)" and
    eq: "pdd = \<lparr>pdd_dim = int ?K + 1, pdd_V = mpq_convert2eigen env (?K + 1) (qi_V info),
                  pdd_H = \<lparr>mrows = hs, mcols = ?K + 1\<rparr>, pdd_incidence = bs\<rparr>"
    by blast
  from maximal_rows_Inr[OF rows] have
    len: "length hs = length (compute_maximal_indexes env incT)" and
    each: "\<forall>i < length (compute_maximal_indexes env incT).
             maximal_row A ?K quadrant incT (compute_maximal_indexes env incT ! i)
               = Inr (hs ! i, bs ! i)"
    by simp_all
  have "\<forall>i < length (compute_maximal_indexes env incT).
          (compute_maximal_indexes env incT ! i < int (length (mrows A)) \<longrightarrow>
             hs ! i = mrows A ! nat (compute_maximal_indexes env incT ! i)) \<and>
          (\<not> compute_maximal_indexes env incT ! i < int (length (mrows A)) \<longrightarrow>
             hs ! i =
               (replicate (?K + 1) (Num 0))
                 [nat (compute_maximal_indexes env incT ! i - int (length (mrows A))) + 1 :=
                    (if quadrant ! nat (compute_maximal_indexes env incT ! i
                                         - int (length (mrows A))) = MINUS
                     then Num (- 1) else Num 1)])"
    using each maximal_row_Inr by blast
  with look t len eq show ?thesis by simp
qed

theorem quadrant_halfspace_rows_witness:
  "distinct (map fst (fkrelu_quadrant2info example_env example_A2)) \<and>
   ([PLUS, PLUS], snd (example_quadrants ! 1)) \<in> set (fkrelu_quadrant2info example_env example_A2) \<and>
   qi_V (snd (example_quadrants ! 1)) \<noteq> [] \<and>
   fkrelu_quadrant2pdd example_env example_A2 =
     Inr [[MINUS, MINUS] \<mapsto> empty_pdd 2, [PLUS, PLUS] \<mapsto> example_pdd] \<and>
   mrows (pdd_H example_pdd) ! 0 = mrows example_A2 ! 4 \<and>
   mrows (pdd_H example_pdd) ! 2 = (replicate 3 (Num 0))[1 := Num 1] \<and>
   (\<exists>pdd incT.
      [[MINUS, MINUS] \<mapsto> empty_pdd 2, [PLUS, PLUS] \<mapsto> example_pdd] [PLUS, PLUS] = Some pdd \<and>
      transpose_incidence (V_to_H_incidence (snd (example_quadrants ! 1))) = Inr incT \<and>
      length (mrows (pdd_H pdd)) = length (compute_maximal_indexes example_env incT))"
proof -
  have 1: "distinct (map fst (fkrelu_quadrant2info example_env example_A2))"
    by (simp add: example_quadrant2info example_quadrants_def)
  have 2: "([PLUS, PLUS], snd (example_quadrants ! 1))
             \<in> set (fkrelu_quadrant2info example_env example_A2)"
    by (simp add: example_quadrant2info example_quadrants_def)
  have 3: "qi_V (snd (example_quadrants ! 1)) \<noteq> []"
    by (simp add: example_quadrants_def)
  note 4 = example_quadrant2pdd
  have 6: "mrows (pdd_H example_pdd) ! 0 = mrows example_A2 ! 4"
    by (simp add: example_pdd_def example_A2_def)
  have 7: "mrows (pdd_H example_pdd) ! 2 = (replicate 3 (Num 0))[1 := Num 1]"
    by (simp add: example_pdd_def numeral_3_eq_3)
  from quadrant_halfspace_rows[OF 1 2 3 4] have 8:
    "\<exists>pdd incT.
      [[MINUS, MINUS] \<mapsto> empty_pdd 2, [PLUS, PLUS] \<mapsto> example_pdd] [PLUS, PLUS] = Some pdd \<and>
      transpose_incidence (V_to_H_incidence (snd (example_quadrants ! 1))) = Inr incT \<and>
      length (mrows (pdd_H pdd)) = length (compute_maximal_indexes example_env incT)"
    by blast
  show ?thesis by (intro conjI 1 2 3 4 6 7 8)
qed

text \<open>
  Claim C8.  For every quadrant without vertices, \<^verbatim>\<open>fkrelu\<close> stores under that quadrant a PDD
  of dimension \<open>K + 1\<close> whose vertex matrix and halfspace matrix are \<open>0 \<times> (K + 1)\<close> and whose
  incidence list is empty.
\<close>

theorem empty_quadrant_recorded:
  assumes "distinct (map fst (fkrelu_quadrant2info env A))"
    and "(quadrant, info) \<in> set (fkrelu_quadrant2info env A)"
    and "qi_V info = []"
    and "fkrelu_quadrant2pdd env A = Inr quadrant2pdd"
    and "verify_fkrelu_input env A = Inr ()"
  shows "quadrant2pdd quadrant =
           Some \<lparr>pdd_dim = (int (mcols A) - 1) + 1,
                 pdd_V = \<lparr>mrows = [], mcols = nat (int (mcols A) - 1) + 1\<rparr>,
                 pdd_H = \<lparr>mrows = [], mcols = nat (int (mcols A) - 1) + 1\<rparr>,
                 pdd_incidence = []\<rparr>"
proof -
  let ?K = "nat (int (mcols A) - 1)"
  from fkrelu_quadrants_records[OF assms(4)[unfolded fkrelu_quadrant2pdd_def] assms(1,2)]
  obtain pdd where pdd: "quadrant_pdd env A ?K quadrant info = Inr pdd"
    and look: "quadrant2pdd quadrant = Some pdd"
    by blast
  have K: "1 \<le> int (mcols A) - 1"
    using assms(5) by (simp add: verify_fkrelu_input_def Let_def split: if_splits)
  from pdd quadrant_pdd_empty[OF assms(3), of env A ?K quadrant] look K
  show ?thesis by (simp add: empty_pdd_def)
qed

theorem empty_quadrant_recorded_witness:
  "distinct (map fst (fkrelu_quadrant2info example_env example_A2)) \<and>
   ([MINUS, MINUS], snd (example_quadrants ! 0)) \<in> set (fkrelu_quadrant2info example_env example_A2) \<and>
   qi_V (snd (example_quadrants ! 0)) = [] \<and>
   fkrelu_quadrant2pdd example_env example_A2 =
     Inr [[MINUS, MINUS] \<mapsto> empty_pdd 2, [PLUS, PLUS] \<mapsto> example_pdd] \<and>
   verify_fkrelu_input example_env example_A2 = Inr () \<and>
   [[MINUS, MINUS] \<mapsto> empty_pdd 2, [PLUS, PLUS] \<mapsto> example_pdd] [MINUS, MINUS] =
     Some \<lparr>pdd_dim = (int (mcols example_A2) - 1) + 1,
           pdd_V = \<lparr>mrows = [], mcols = nat (int (mcols example_A2) - 1) + 1\<rparr>,
           pdd_H = \<lparr>mrows = [], mcols = nat (int (mcols example_A2) - 1) + 1\<rparr>,
           pdd_incidence = []\<rparr>"
proof -
  have 1: "distinct (map fst (fkrelu_quadrant2info example_env example_A2))"
    by (simp add: example_quadrant2info example_quadrants_def)
  have 2: "([MINUS, MINUS], snd (example_quadrants ! 0))
             \<in> set (fkrelu_quadrant2info example_env example_A2)"
    by (simp add: example_quadrant2info example_quadrants_def)
  have 3: "qi_V (snd (example_quadrants ! 0)) = []"
    by (simp add: example_quadrants_def)
  note 4 = example_quadrant2pdd
  note 5 = example_A2_accepted
  show ?thesis by (intro conjI 1 2 3 4 5 empty_quadrant_recorded[OF 1 2 3 4 5])
qed

section \<open>Soundness of the quadrants' PDDs\<close>


























section \<open>The width of the result of fkrelu\<close>

lemma maximal_row_length:
  assumes "maximal_row A K quadrant inc m = Inr (h, b)" and "wf_matrix A" and "mcols A = K + 1"
  shows "length h = K + 1"
proof (cases "m < int (length (mrows A))")
  case True
  with maximal_row_Inr[OF assms(1)] have "h = mrows A ! nat m" "nat m < length (mrows A)"
    by auto
  then have "h \<in> set (mrows A)" by simp
  with assms(2,3) show ?thesis by (simp add: wf_matrix_def list_all_iff)
next
  case False
  with maximal_row_Inr[OF assms(1)] show ?thesis by simp
qed

lemma quadrant_pdd_rows_length:
  assumes "quadrant_pdd env A K quadrant info = Inr pdd" and "wf_matrix A"
    and "mcols A = K + 1" and "h \<in> set (mrows (pdd_H pdd))"
  shows "length h = K + 1"
proof (cases "qi_V info = []")
  case True
  with assms(1) quadrant_pdd_empty[OF True, of env A K quadrant]
  have "pdd = empty_pdd K" by simp
  with assms(4) show ?thesis by (simp add: empty_pdd_def)
next
  case False
  from quadrant_pdd_nonempty[OF False assms(1)] obtain incT hs bs where
    rows: "maximal_rows A K quadrant incT (compute_maximal_indexes env incT) = Inr (hs, bs)" and
    eq: "pdd = \<lparr>pdd_dim = int K + 1, pdd_V = mpq_convert2eigen env (K + 1) (qi_V info),
                  pdd_H = \<lparr>mrows = hs, mcols = K + 1\<rparr>, pdd_incidence = bs\<rparr>"
    by blast
  from assms(4) eq obtain i where i: "i < length hs" and h: "h = hs ! i"
    by (auto simp: in_set_conv_nth)
  from maximal_rows_Inr[OF rows] i have
    "maximal_row A K quadrant incT (compute_maximal_indexes env incT ! i) = Inr (hs ! i, bs ! i)"
    by simp
  from maximal_row_length[OF this assms(2,3)] h show ?thesis by simp
qed

lemma decomposition_cols: "mcols (decomposition env quadrant2pdd K) = K + 1"
  by (simp add: decomposition_def Let_def)

lemma decomposition_rows:
  assumes "h \<in> set (mrows (decomposition env quadrant2pdd K))"
  shows "\<exists>quadrant pdd. quadrant2pdd quadrant = Some pdd \<and> h \<in> set (mrows (pdd_H pdd))"
  using assms by (auto simp: decomposition_def Let_def split: option.splits) metis

lemma example_fkrelu_A1:
  "fkrelu example_env example_A1 =
     Inr \<lparr>mrows = [[Num 0, Num 0, Num 1], [Num 0, Num (- 1), Num 1],
                    [Num (6004799503160661 / 9007199254740992),
                     Num (6004799503160661 / 9007199254740992), Num (- 1)]],
          mcols = 3\<rparr>"
proof -
  have n: "dneg (Num 1) = Num (- 1)" by (simp add: dneg_def)
  show ?thesis
    using relu_1_example example_A1_accepted
    by (simp add: fkrelu_def example_A1_def coeff_def n)
qed

lemma example_fkrelu_A2:
  "fkrelu example_env example_A2 =
     Inr \<lparr>mrows = [[Num 1, Num 0, Num (- 1)], [Num 1, Num (- 1), Num 0],
                    [Num 0, Num 1, Num 0], [Num 0, Num 0, Num 1]], mcols = 3\<rparr>"
proof -
  have K: "int (mcols example_A2) - 1 = 2" by (simp add: example_A2_def)
  have q: "List.n_lists 2 [MINUS, PLUS] =
             [[MINUS, MINUS], [PLUS, MINUS], [MINUS, PLUS], [PLUS, PLUS]]"
    by (simp add: numeral_2_eq_2)
  have d: "decomposition example_env
             [[MINUS, MINUS] \<mapsto> empty_pdd 2, [PLUS, PLUS] \<mapsto> example_pdd] 2 =
           \<lparr>mrows = [[Num 1, Num 0, Num (- 1)], [Num 1, Num (- 1), Num 0],
                     [Num 0, Num 1, Num 0], [Num 0, Num 0, Num 1]], mcols = 3\<rparr>"
    unfolding decomposition_def q
    by (simp add: example_env_def empty_pdd_def example_pdd_def)
  show ?thesis
    by (simp add: fkrelu_def K example_A2_accepted example_quadrant2pdd d)
qed

lemma example_A2_wf: "wf_matrix example_A2"
  by (simp add: wf_matrix_def example_A2_def)

text \<open>
  Claim C4, as stated: the matrix returned by \<^verbatim>\<open>fkrelu\<close> on an accepted input has \<open>K + 1\<close>
  columns.  It fails for \<open>K = 1\<close>: on the accepted input \<open>-1 \<le> x \<le> 2\<close> the result is the
  \<open>3 \<times> 3\<close> matrix of \<^verbatim>\<open>relu_1\<close>, while \<open>K + 1 = 2\<close>.
\<close>

theorem fkrelu_K1_columns_counterexample:
  "verify_fkrelu_input example_env example_A1 = Inr () \<and>
   fkrelu example_env example_A1 =
     Inr \<lparr>mrows = [[Num 0, Num 0, Num 1], [Num 0, Num (- 1), Num 1],
                    [Num (6004799503160661 / 9007199254740992),
                     Num (6004799503160661 / 9007199254740992), Num (- 1)]],
          mcols = 3\<rparr> \<and>
   int (mcols \<lparr>mrows = [[Num 0, Num 0, Num 1], [Num 0, Num (- 1), Num 1],
                         [Num (6004799503160661 / 9007199254740992),
                          Num (6004799503160661 / 9007199254740992), Num (- 1)]],
               mcols = 3\<rparr>)
     \<noteq> (int (mcols example_A1) - 1) + 1"
  using example_A1_accepted example_fkrelu_A1
  by (simp add: example_A1_def)

text \<open>
  Claim C4, amended.  On an accepted input with \<open>K = 1\<close>, every matrix returned by
  \<^verbatim>\<open>fkrelu\<close> has exactly \<open>2 K + 1 = 3\<close> columns (and three rows of that width): the columns
  of the constant, the input \<open>x\<close> and the output \<open>y\<close>.  On an accepted input with \<open>K > 1\<close>,
  every matrix returned by \<^verbatim>\<open>fkrelu\<close> has exactly \<open>K + 1\<close> columns, and every one of its rows
  has \<open>K + 1\<close> entries when the rows of \<open>A\<close> have \<open>A.cols()\<close> entries.
\<close>

theorem fkrelu_columns:
  assumes "verify_fkrelu_input env A = Inr ()" and "fkrelu env A = Inr H"
  shows "(int (mcols A) - 1 = 1 \<longrightarrow>
            int (mcols H) = 2 * (int (mcols A) - 1) + 1 \<and> length (mrows H) = 3 \<and> wf_matrix H) \<and>
         (int (mcols A) - 1 \<noteq> 1 \<longrightarrow>
            int (mcols H) = (int (mcols A) - 1) + 1 \<and> (wf_matrix A \<longrightarrow> wf_matrix H))"
proof (rule conjI; rule impI)
  assume "int (mcols A) - 1 = 1"
  with assms relu_1_cols[of "dneg (coeff A 0 0)" "coeff A 1 0" H]
  show "int (mcols H) = 2 * (int (mcols A) - 1) + 1 \<and> length (mrows H) = 3 \<and> wf_matrix H"
    by (simp add: fkrelu_def)
next
  assume K1: "int (mcols A) - 1 \<noteq> 1"
  let ?K = "nat (int (mcols A) - 1)"
  have K: "1 \<le> int (mcols A) - 1"
    using assms(1) by (simp add: verify_fkrelu_input_def Let_def split: if_splits)
  then have cols: "mcols A = ?K + 1" by simp
  from assms K K1 obtain quadrant2pdd where
    q: "fkrelu_quadrant2pdd env A = Inr quadrant2pdd" and
    H: "H = decomposition env quadrant2pdd ?K"
    by (auto simp: fkrelu_def Let_def split: if_splits sum.splits)
  have w: "int (mcols H) = (int (mcols A) - 1) + 1"
    unfolding H decomposition_cols using K by simp
  have "wf_matrix H" if wf: "wf_matrix A"
  proof -
    have "length h = mcols H" if "h \<in> set (mrows H)" for h
    proof -
      from decomposition_rows[OF that[unfolded H]] obtain quadrant pdd where
        look: "quadrant2pdd quadrant = Some pdd" and h: "h \<in> set (mrows (pdd_H pdd))"
        by blast
      from fkrelu_quadrants_origin[OF q[unfolded fkrelu_quadrant2pdd_def] look]
      obtain info where "quadrant_pdd env A ?K quadrant info = Inr pdd" by auto
      from quadrant_pdd_rows_length[OF this wf cols h] show ?thesis
        unfolding H decomposition_cols .
    qed
    then show ?thesis by (simp add: wf_matrix_def list_all_iff)
  qed
  with w show "int (mcols H) = (int (mcols A) - 1) + 1 \<and> (wf_matrix A \<longrightarrow> wf_matrix H)"
    by simp
qed

theorem fkrelu_columns_witness:
  "verify_fkrelu_input example_env example_A1 = Inr () \<and>
   fkrelu example_env example_A1 =
     Inr \<lparr>mrows = [[Num 0, Num 0, Num 1], [Num 0, Num (- 1), Num 1],
                    [Num (6004799503160661 / 9007199254740992),
                     Num (6004799503160661 / 9007199254740992), Num (- 1)]],
          mcols = 3\<rparr> \<and>
   int (mcols example_A1) - 1 = 1 \<and>
   int (mcols \<lparr>mrows = [[Num 0, Num 0, Num 1], [Num 0, Num (- 1), Num 1],
                         [Num (6004799503160661 / 9007199254740992),
                          Num (6004799503160661 / 9007199254740992), Num (- 1)]],
               mcols = 3\<rparr>) =
     2 * (int (mcols example_A1) - 1) + 1 \<and>
   verify_fkrelu_input example_env example_A2 = Inr () \<and> wf_matrix example_A2 \<and>
   fkrelu example_env example_A2 =
     Inr \<lparr>mrows = [[Num 1, Num 0, Num (- 1)], [Num 1, Num (- 1), Num 0],
                    [Num 0, Num 1, Num 0], [Num 0, Num 0, Num 1]], mcols = 3\<rparr> \<and>
   int (mcols example_A2) - 1 \<noteq> 1 \<and>
   int (mcols \<lparr>mrows = [[Num 1, Num 0, Num (- 1)], [Num 1, Num (- 1), Num 0],
                         [Num 0, Num 1, Num 0], [Num 0, Num 0, Num 1]], mcols = 3\<rparr>) =
     (int (mcols example_A2) - 1) + 1 \<and>
   wf_matrix \<lparr>mrows = [[Num 1, Num 0, Num (- 1)], [Num 1, Num (- 1), Num 0],
                       [Num 0, Num 1, Num 0], [Num 0, Num 0, Num 1]], mcols = 3\<rparr>"
proof -
  have K1: "int (mcols example_A1) - 1 = 1" by (simp add: example_A1_def)
  have K2: "int (mcols example_A2) - 1 \<noteq> 1" by (simp add: example_A2_def)
  from fkrelu_columns[OF example_A1_accepted example_fkrelu_A1] K1
  have 1: "int (mcols \<lparr>mrows = [[Num 0, Num 0, Num 1], [Num 0, Num (- 1), Num 1],
                         [Num (6004799503160661 / 9007199254740992),
                          Num (6004799503160661 / 9007199254740992), Num (- 1)]],
               mcols = 3\<rparr>) =
     2 * (int (mcols example_A1) - 1) + 1"
    by simp
  from fkrelu_columns[OF example_A2_accepted example_fkrelu_A2] K2 example_A2_wf
  have 2: "int (mcols \<lparr>mrows = [[Num 1, Num 0, Num (- 1)], [Num 1, Num (- 1), Num 0],
                         [Num 0, Num 1, Num 0], [Num 0, Num 0, Num 1]], mcols = 3\<rparr>) =
     (int (mcols example_A2) - 1) + 1"
    and 3: "wf_matrix \<lparr>mrows = [[Num 1, Num 0, Num (- 1)], [Num 1, Num (- 1), Num 0],
                       [Num 0, Num 1, Num 0], [Num 0, Num 0, Num 1]], mcols = 3\<rparr>"
    by simp_all
  show ?thesis
    by (intro conjI example_A1_accepted example_fkrelu_A1 K1 1
        example_A2_accepted example_A2_wf example_fkrelu_A2 K2 2 3)
qed

section \<open>Properties of krelu_with_cdd\<close>

lemma copy_input_coords_Inr:
  assumes "\<forall>i \<in> set is. i < length v \<and> i < length p"
  shows "\<exists>p'. copy_input_coords v is p = Inr p' \<and> length p' = length p \<and>
           (\<forall>j < length p. p' ! j = (if j \<in> set is then v ! j else p ! j))"
  using assms
proof (induction "is" arbitrary: p)
  case Nil
  then show ?case by simp
next
  case (Cons i "is")
  have "\<forall>k \<in> set is. k < length v \<and> k < length (p[i := v ! i])" using Cons.prems by simp
  from Cons.IH[OF this] obtain p' where
    p': "copy_input_coords v is (p[i := v ! i]) = Inr p'" "length p' = length p"
        "\<forall>j < length p. p' ! j = (if j \<in> set is then v ! j else p[i := v ! i] ! j)"
    by auto
  have "copy_input_coords v (i # is) p = Inr p'" using Cons.prems p'(1) by simp
  moreover have "\<forall>j < length p. p' ! j = (if j \<in> set (i # is) then v ! j else p ! j)"
    using p'(3) by (auto simp: nth_list_update)
  ultimately show ?case using p'(2) by blast
qed

lemma copy_plus_coords_Inr:
  assumes "\<forall>i \<in> set is. i < K" and "K \<le> length quadrant" and "K + 1 \<le> length v"
    and "length p = 2 * K + 1"
  shows "\<exists>p'. copy_plus_coords K quadrant v is p = Inr p' \<and> length p' = length p \<and>
           (\<forall>j < K + 1. p' ! j = p ! j) \<and>
           (\<forall>i < K. p' ! (1 + i + K) =
              (if i \<in> set is \<and> quadrant ! i = PLUS then v ! (1 + i) else p ! (1 + i + K)))"
  using assms
proof (induction "is" arbitrary: p)
  case Nil
  then show ?case by simp
next
  case (Cons i "is")
  have i: "i < K" using Cons.prems(1) by simp
  have rest: "\<forall>k \<in> set is. k < K" using Cons.prems(1) by simp
  show ?case
  proof (cases "quadrant ! i = PLUS")
    case False
    from Cons.IH[OF rest Cons.prems(2,3,4)] obtain p' where
      p': "copy_plus_coords K quadrant v is p = Inr p'" "length p' = length p"
          "\<forall>j < K + 1. p' ! j = p ! j"
          "\<forall>k < K. p' ! (1 + k + K) =
              (if k \<in> set is \<and> quadrant ! k = PLUS then v ! (1 + k) else p ! (1 + k + K))"
      by blast
    have "copy_plus_coords K quadrant v (i # is) p = Inr p'"
      using False i Cons.prems(2) p'(1) by simp
    moreover have "\<forall>k < K. p' ! (1 + k + K) =
              (if k \<in> set (i # is) \<and> quadrant ! k = PLUS then v ! (1 + k) else p ! (1 + k + K))"
      using p'(4) False by auto
    ultimately show ?thesis using p'(2,3) by blast
  next
    case True
    let ?p = "p[1 + i + K := v ! (1 + i)]"
    have len: "length ?p = 2 * K + 1" using Cons.prems(4) by simp
    from Cons.IH[OF rest Cons.prems(2,3) len] obtain p' where
      p': "copy_plus_coords K quadrant v is ?p = Inr p'" "length p' = length ?p"
          "\<forall>j < K + 1. p' ! j = ?p ! j"
          "\<forall>k < K. p' ! (1 + k + K) =
              (if k \<in> set is \<and> quadrant ! k = PLUS then v ! (1 + k) else ?p ! (1 + k + K))"
      by blast
    have "copy_plus_coords K quadrant v (i # is) p = Inr p'"
      using True i Cons.prems(2,3,4) p'(1) by simp
    moreover have "\<forall>j < K + 1. p' ! j = p ! j" using p'(3) by simp
    moreover have "\<forall>k < K. p' ! (1 + k + K) =
              (if k \<in> set (i # is) \<and> quadrant ! k = PLUS then v ! (1 + k) else p ! (1 + k + K))"
    proof (intro allI impI)
      fix k assume k: "k < K"
      show "p' ! (1 + k + K) =
              (if k \<in> set (i # is) \<and> quadrant ! k = PLUS then v ! (1 + k) else p ! (1 + k + K))"
      proof (cases "k = i")
        case True
        then show ?thesis using p'(4) k \<open>quadrant ! i = PLUS\<close> Cons.prems(4) by simp
      next
        case False
        then show ?thesis using p'(4) k by simp
      qed
    qed
    ultimately show ?thesis using p'(2) by auto
  qed
qed

lemma project_row:
  assumes "K \<le> length quadrant" and "K + 1 \<le> length v"
  shows "\<exists>p p'. copy_input_coords v [0..<K + 1] (replicate (2 * K + 1) 0) = Inr p \<and>
           copy_plus_coords K quadrant v [0..<K] p = Inr p' \<and> p' = embed_vertex K quadrant v"
proof -
  have a: "\<forall>i \<in> set [0..<K + 1]. i < length v \<and> i < length (replicate (2 * K + 1) (0::rat))"
    using assms by auto
  from copy_input_coords_Inr[OF a] obtain p where
    p: "copy_input_coords v [0..<K + 1] (replicate (2 * K + 1) 0) = Inr p"
       "length p = 2 * K + 1"
       "\<forall>j < 2 * K + 1. p ! j = (if j < K + 1 then v ! j else 0)"
    by auto
  have b: "\<forall>i \<in> set [0..<K]. i < K" by simp
  from copy_plus_coords_Inr[OF b assms p(2)] obtain p' where
    p': "copy_plus_coords K quadrant v [0..<K] p = Inr p'" "length p' = 2 * K + 1"
        "\<forall>j < K + 1. p' ! j = p ! j"
        "\<forall>i < K. p' ! (1 + i + K) = (if quadrant ! i = PLUS then v ! (1 + i) else p ! (1 + i + K))"
    using p(2) by auto
  have "p' = embed_vertex K quadrant v"
  proof (rule nth_equalityI)
    show "length p' = length (embed_vertex K quadrant v)"
      using p'(2) assms by (simp add: embed_vertex_def)
  next
    fix j assume "j < length p'"
    then have j: "j < 2 * K + 1" using p'(2) by simp
    show "p' ! j = embed_vertex K quadrant v ! j"
    proof (cases "j < K + 1")
      case True
      then show ?thesis using p'(3) p(3) assms by (simp add: embed_vertex_def nth_append)
    next
      case False
      with j have "j = 1 + (j - K - 1) + K" "j - K - 1 < K" by simp_all
      then obtain i where i: "j = 1 + i + K" "i < K" by blast
      with p'(4) p(3) assms show ?thesis
        by (simp add: embed_vertex_def nth_append min_def)
    qed
  qed
  with p(1) p'(1) show ?thesis by blast
qed

lemma project_vertices_Inr:
  assumes "K \<le> length quadrant" and "\<forall>v \<in> set vs. K + 1 \<le> length v"
    and "counter + length vs \<le> length M"
    and "\<forall>j. counter \<le> j \<and> j < length M \<longrightarrow> M ! j = replicate (2 * K + 1) 0"
  shows "project_vertices K quadrant vs (M, counter) =
           Inr (take counter M @ map (embed_vertex K quadrant) vs @ drop (counter + length vs) M,
                counter + length vs)"
  using assms
proof (induction vs arbitrary: M counter)
  case Nil
  then show ?case by simp
next
  case (Cons v vs)
  have c: "counter < length M" using Cons.prems(3) by simp
  have zero: "M ! counter = replicate (2 * K + 1) 0" using Cons.prems(4) c by simp
  have v: "K + 1 \<le> length v" using Cons.prems(2) by simp
  from project_row[OF Cons.prems(1) v] obtain p where
    p: "copy_input_coords v [0..<K + 1] (replicate (2 * K + 1) 0) = Inr p"
       "copy_plus_coords K quadrant v [0..<K] p = Inr (embed_vertex K quadrant v)"
    by blast
  let ?M = "M[counter := embed_vertex K quadrant v]"
  have step: "project_vertices K quadrant (v # vs) (M, counter) =
                project_vertices K quadrant vs (?M, counter + 1)"
    using c zero p by simp
  have 2: "\<forall>v \<in> set vs. K + 1 \<le> length v" using Cons.prems(2) by simp
  have 3: "(counter + 1) + length vs \<le> length ?M" using Cons.prems(3) by simp
  have 4: "\<forall>j. counter + 1 \<le> j \<and> j < length ?M \<longrightarrow> ?M ! j = replicate (2 * K + 1) 0"
    using Cons.prems(4) by simp
  have t: "take (counter + 1) ?M = take counter M @ [embed_vertex K quadrant v]"
    using c by (simp add: take_Suc_conv_app_nth)
  have d: "drop (counter + 1 + length vs) ?M = drop (counter + length (v # vs)) M"
    by simp
  show ?case
    unfolding step Cons.IH[OF Cons.prems(1) 2 3 4] t d by simp
qed

lemma length_embed_quadrants: "length (embed_quadrants K qs) = count_vertices qs"
  by (induction qs) (auto simp: embed_quadrants_def count_vertices_def)

lemma project_quadrants_Inr:
  assumes "quadrants_shape K qs"
    and "counter + count_vertices qs \<le> length M"
    and "\<forall>j. counter \<le> j \<and> j < length M \<longrightarrow> M ! j = replicate (2 * K + 1) 0"
  shows "project_quadrants K qs (M, counter) =
           Inr (take counter M @ embed_quadrants K qs @ drop (counter + count_vertices qs) M,
                counter + count_vertices qs)"
  using assms
proof (induction qs arbitrary: M counter)
  case Nil
  then show ?case by (simp add: embed_quadrants_def count_vertices_def)
next
  case (Cons entry qs)
  obtain quadrant info where entry: "entry = (quadrant, info)" by (cases entry)
  let ?n = "length (qi_V info)"
  let ?e = "map (embed_vertex K quadrant) (qi_V info)"
  let ?M = "take counter M @ ?e @ drop (counter + ?n) M"
  have cnt: "count_vertices (entry # qs) = ?n + count_vertices qs"
    using entry by (simp add: count_vertices_def)
  have emb: "embed_quadrants K (entry # qs) = ?e @ embed_quadrants K qs"
    using entry by (simp add: embed_quadrants_def)
  have q: "K \<le> length quadrant" and vs: "\<forall>v \<in> set (qi_V info). K + 1 \<le> length v"
    and shape: "quadrants_shape K qs"
    using Cons.prems(1) entry by (auto simp: quadrants_shape_def)
  have fit: "counter + ?n \<le> length M" using Cons.prems(2) cnt by simp
  have first: "project_vertices K quadrant (qi_V info) (M, counter) = Inr (?M, counter + ?n)"
    by (rule project_vertices_Inr[OF q vs fit Cons.prems(3)])
  have lenM: "length ?M = length M" using fit by simp
  have 2: "(counter + ?n) + count_vertices qs \<le> length ?M"
    using Cons.prems(2) cnt lenM by simp
  have 3: "\<forall>j. counter + ?n \<le> j \<and> j < length ?M \<longrightarrow> ?M ! j = replicate (2 * K + 1) 0"
  proof (intro allI impI)
    fix j assume j: "counter + ?n \<le> j \<and> j < length ?M"
    then have "?M ! j = M ! j" using fit by (auto simp: nth_append)
    with j lenM Cons.prems(3) show "?M ! j = replicate (2 * K + 1) 0" by simp
  qed
  have t: "take (counter + ?n) ?M = take counter M @ ?e" using fit by simp
  have d: "drop (counter + ?n + count_vertices qs) ?M
             = drop (counter + count_vertices (entry # qs)) M"
    using fit cnt by (simp add: add.commute add.left_commute)
  show ?case
    using first Cons.IH[OF shape 2 3] entry
    unfolding t d emb cnt by (simp add: add.assoc)
qed

lemma fold_count_vertices:
  "fold (\<lambda>entry n. n + length (qi_V (snd entry))) qs a = a + count_vertices qs"
  by (induction qs arbitrary: a) (auto simp: count_vertices_def)

lemma krelu_vertices_eq:
  assumes "quadrants_shape K qs"
  shows "krelu_vertices K qs = Inr (embed_quadrants K qs)"
proof -
  let ?N = "count_vertices qs"
  let ?M = "dd_CreateMatrix ?N (2 * K + 1)"
  have len: "length ?M = ?N" by (simp add: dd_CreateMatrix_def)
  have 2: "0 + ?N \<le> length ?M" using len by simp
  have 3: "\<forall>j. 0 \<le> j \<and> j < length ?M \<longrightarrow> ?M ! j = replicate (2 * K + 1) 0"
    by (simp add: dd_CreateMatrix_def)
  from project_quadrants_Inr[OF assms 2 3] len
  have "project_quadrants K qs (?M, 0) = Inr (embed_quadrants K qs, ?N)" by simp
  then show ?thesis
    by (simp add: krelu_vertices_def fold_count_vertices Let_def)
qed

lemma embed_vertex_columns:
  assumes "K + 1 \<le> length v"
  shows "length (embed_vertex K quadrant v) = 2 * K + 1 \<and>
         (\<forall>j < K + 1. embed_vertex K quadrant v ! j = v ! j) \<and>
         (\<forall>i < K. embed_vertex K quadrant v ! (1 + i + K) =
            (if quadrant ! i = PLUS then v ! (1 + i) else 0))"
  using assms by (auto simp: embed_vertex_def nth_append min_def)

text \<open>
  Claim C9.  \<^verbatim>\<open>krelu_with_cdd\<close> builds a generator matrix of width \<open>2 K + 1\<close> with exactly one
  row per vertex over all quadrants, in the order of the quadrants; in the row of a vertex
  \<open>v\<close> of a quadrant, the first \<open>K + 1\<close> columns are the coordinates of \<open>v\<close>, and for every
  dimension \<open>i < K\<close> column \<open>1 + i + K\<close> is coordinate \<open>1 + i\<close> of \<open>v\<close> when the quadrant's sign
  for \<open>i\<close> is \<open>PLUS\<close> and \<open>0\<close> when it is \<open>MINUS\<close>.
\<close>

theorem krelu_generator_matrix:
  assumes "quadrants_shape (nat (int (mcols A) - 1)) (compute_quadrants_with_cdd env A)"
  shows "\<exists>vertices.
           krelu_vertices (nat (int (mcols A) - 1)) (compute_quadrants_with_cdd env A) = Inr vertices \<and>
           length vertices = count_vertices (compute_quadrants_with_cdd env A) \<and>
           (\<forall>row \<in> set vertices. length row = 2 * nat (int (mcols A) - 1) + 1) \<and>
           vertices = embed_quadrants (nat (int (mcols A) - 1)) (compute_quadrants_with_cdd env A) \<and>
           (\<forall>(quadrant, info) \<in> set (compute_quadrants_with_cdd env A). \<forall>v \<in> set (qi_V info).
              (\<forall>j < nat (int (mcols A) - 1) + 1.
                 embed_vertex (nat (int (mcols A) - 1)) quadrant v ! j = v ! j) \<and>
              (\<forall>i < nat (int (mcols A) - 1).
                 embed_vertex (nat (int (mcols A) - 1)) quadrant v ! (1 + i + nat (int (mcols A) - 1)) =
                   (if quadrant ! i = PLUS then v ! (1 + i) else 0)))"
proof -
  let ?K = "nat (int (mcols A) - 1)"
  let ?qs = "compute_quadrants_with_cdd env A"
  have cols: "\<forall>(quadrant, info) \<in> set ?qs. \<forall>v \<in> set (qi_V info).
                length (embed_vertex ?K quadrant v) = 2 * ?K + 1 \<and>
                (\<forall>j < ?K + 1. embed_vertex ?K quadrant v ! j = v ! j) \<and>
                (\<forall>i < ?K. embed_vertex ?K quadrant v ! (1 + i + ?K) =
                   (if quadrant ! i = PLUS then v ! (1 + i) else 0))"
    using assms embed_vertex_columns by (fastforce simp: quadrants_shape_def)
  have width: "\<forall>row \<in> set (embed_quadrants ?K ?qs). length row = 2 * ?K + 1"
    using cols by (fastforce simp: embed_quadrants_def)
  from krelu_vertices_eq[OF assms] length_embed_quadrants[of ?K ?qs] width cols
  show ?thesis by fastforce
qed

lemma example_quadrants_1_shape: "quadrants_shape 1 example_quadrants_1"
  by (simp add: quadrants_shape_def example_quadrants_1_def)

lemma example_embed_quadrants_1:
  "embed_quadrants 1 example_quadrants_1 = [[1, - 1, 0], [1, 0, 0], [1, 0, 0], [1, 2, 2]]"
  by (simp add: embed_quadrants_def example_quadrants_1_def embed_vertex_def)

theorem krelu_generator_matrix_witness:
  "quadrants_shape (nat (int (mcols example_A1) - 1))
     (compute_quadrants_with_cdd example_env example_A1) \<and>
   krelu_vertices (nat (int (mcols example_A1) - 1))
     (compute_quadrants_with_cdd example_env example_A1) =
       Inr [[1, - 1, 0], [1, 0, 0], [1, 0, 0], [1, 2, 2]]"
proof -
  have K: "nat (int (mcols example_A1) - 1) = 1" by (simp add: example_A1_def)
  have q: "compute_quadrants_with_cdd example_env example_A1 = example_quadrants_1"
    by (simp add: example_env_def example_A1_def)
  have 1: "quadrants_shape (nat (int (mcols example_A1) - 1))
     (compute_quadrants_with_cdd example_env example_A1)"
    unfolding K q by (rule example_quadrants_1_shape)
  from krelu_generator_matrix[OF 1] have
    "krelu_vertices (nat (int (mcols example_A1) - 1))
       (compute_quadrants_with_cdd example_env example_A1) =
     Inr (embed_quadrants (nat (int (mcols example_A1) - 1))
       (compute_quadrants_with_cdd example_env example_A1))"
    by blast
  with 1 show ?thesis unfolding K q example_embed_quadrants_1 by blast
qed

lemma copy_input_coords_Inl: "copy_input_coords v is p = Inl e \<Longrightarrow> e = UndefinedBehaviour"
  by (induction "is" arbitrary: p) (auto split: if_splits)

lemma copy_plus_coords_Inl:
  "copy_plus_coords K quadrant v is p = Inl e \<Longrightarrow> e = UndefinedBehaviour"
  by (induction "is" arbitrary: p) (auto split: if_splits)

lemma project_vertices_Inl:
  "project_vertices K quadrant vs st = Inl e \<Longrightarrow> e = UndefinedBehaviour"
proof (induction K quadrant vs st rule: project_vertices.induct)
  case (1 K quadrant vertices counter)
  then show ?case by simp
next
  case (2 K quadrant v vs vertices counter)
  then show ?case
    by (auto split: if_splits sum.splits dest: copy_input_coords_Inl copy_plus_coords_Inl)
qed

lemma project_quadrants_Inl:
  "project_quadrants K qs st = Inl e \<Longrightarrow> e = UndefinedBehaviour"
proof (induction K qs st rule: project_quadrants.induct)
  case (1 K st)
  then show ?case by simp
next
  case (2 K quadrant info rest st)
  then show ?case by (auto split: sum.splits dest: project_vertices_Inl)
qed

lemma krelu_vertices_Inl:
  "krelu_vertices K qs = Inl e \<Longrightarrow>
   e = UndefinedBehaviour \<or>
   e = AssertFailed ''Consistency checking that counter equals the number of vertices.''"
  by (auto simp: krelu_vertices_def Let_def split: sum.splits prod.splits if_splits
      dest: project_quadrants_Inl)

lemma normalize_rows_Inl:
  "normalize_rows rows = Inl e \<Longrightarrow> e = AssertFailed ''you are using an empty matrix''"
  by (induction rows) (auto simp: Let_def split: if_splits sum.splits)

lemma krelu_with_cdd_Inl:
  assumes "1 \<le> int (mcols A) - 1 \<and> int (mcols A) - 1 \<le> 4" and "krelu_with_cdd env A = Inl e"
  shows "e = UndefinedBehaviour \<or> (\<exists>msg. e = AssertFailed msg) \<or>
         (\<exists>code. e = ASRTF (''Converting matrix to polytope failed with error '' @ code))"
  using assms
  by (auto simp: krelu_with_cdd_def Let_def split: sum.splits prod.splits if_splits
      dest!: krelu_vertices_Inl normalize_rows_Inl)

lemma example_normalize_rows:
  "normalize_rows [[Num 0, Num 0, Num 1], [Num 0, Num (- 1), Num 1], [Num 2, Num 2, Num (- 3)]] =
     Inr [[Num 0, Num 0, Num 1], [Num 0, Num (- 1), Num 1],
          [Num (6004799503160661 / 9007199254740992),
           Num (6004799503160661 / 9007199254740992), Num (- 1)]]"
proof -
  have m: "max_coeff (dabs (Num 0)) (map dabs [Num 0, Num 1]) = Num 1"
    "max_coeff (dabs (Num 0)) (map dabs [Num (- 1), Num 1]) = Num 1"
    "max_coeff (dabs (Num 2)) (map dabs [Num 2, Num (- 3)]) = Num 3"
    by (simp_all add: dabs_def dlt_def is_nan_def dval_def)
  have d: "ddiv (Num 0) (Num 1) = Num 0" "ddiv (Num 1) (Num 1) = Num 1"
    "ddiv (Num (- 1)) (Num 1) = Num (- 1)"
    "ddiv (Num 2) (Num 3) = Num (6004799503160661 / 9007199254740992)"
    "ddiv (Num (- 3)) (Num 3) = Num (- 1)"
    using round_nearest_1 round_nearest_m1 round_nearest_two_thirds
    by (simp_all add: ddiv_def is_nan_def is_inf_def is_zero_def is_finite_def dval_def
        signed_zero_def sign_bit_def)
  show ?thesis
    using m by (simp add: d Let_def)
qed

lemma example_krelu_with_cdd:
  "krelu_with_cdd example_env example_A1_bad =
     Inr \<lparr>mrows = [[Num 0, Num 0, Num 1], [Num 0, Num (- 1), Num 1],
                    [Num (6004799503160661 / 9007199254740992),
                     Num (6004799503160661 / 9007199254740992), Num (- 1)]],
          mcols = 3\<rparr>"
proof -
  have K: "nat (int (mcols example_A1_bad) - 1) = 1" "int (mcols example_A1_bad) - 1 = 1"
    by (simp_all add: example_A1_bad_def)
  have q: "compute_quadrants_with_cdd example_env example_A1_bad = example_quadrants_1"
    by (simp add: example_env_def example_A1_bad_def)
  have v: "krelu_vertices (Suc 0) example_quadrants_1 =
             Inr [[1, - 1, 0], [1, 0, 0], [1, 0, 0], [1, 2, 2]]"
    using krelu_vertices_eq[OF example_quadrants_1_shape] example_embed_quadrants_1 by simp
  have e: "dd_DDMatrix2Poly example_env [[1, - 1, 0], [1, 0, 0], [1, 0, 0], [1, 2, 2]] = (17, ())"
    "dd_NoError example_env = 17"
    "cdd2eigen example_env (dd_CopyInequalities example_env ()) =
       \<lparr>mrows = [[Num 0, Num 0, Num 1], [Num 0, Num (- 1), Num 1], [Num 2, Num 2, Num (- 3)]],
        mcols = 3\<rparr>"
    by (simp_all add: example_env_def round_toward_zero_0 round_toward_zero_1
        round_toward_zero_m1 round_toward_zero_2 round_toward_zero_m3)
  show ?thesis
    by (simp add: krelu_with_cdd_def K q v e example_normalize_rows del: normalize_rows.simps)
qed

text \<open>
  Claim C10.  \<^verbatim>\<open>krelu_with_cdd\<close> checks only that \<open>K = A.cols() - 1\<close> lies in \<open>[1, 4]\<close>: with
  \<open>K\<close> in range it never fails with the row-count error or the format error of
  \<^verbatim>\<open>verify_fkrelu_input\<close>, and its result does not depend on the octahedron table.  The
  input with two columns and three rows is rejected by \<^verbatim>\<open>fkrelu\<close> for its row count, and
  \<^verbatim>\<open>krelu_with_cdd\<close> returns a matrix on it.
\<close>

theorem krelu_with_cdd_skips_validation:
  "(\<not> (1 \<le> int (mcols A) - 1 \<and> int (mcols A) - 1 \<le> 4) \<longrightarrow>
      krelu_with_cdd env A = Inl (ASRTF ''K should be within allowed range.'')) \<and>
   (1 \<le> int (mcols A) - 1 \<and> int (mcols A) - 1 \<le> 4 \<longrightarrow>
      krelu_with_cdd env A \<noteq> Inl (ASRTF ''K should be within allowed range.'') \<and>
      krelu_with_cdd env A \<noteq> Inl (ASRTF ''Unexpected number of rows in the input.'') \<and>
      krelu_with_cdd env A \<noteq> Inl (ASRTF ''Input is not of correct format.'')) \<and>
   krelu_with_cdd (env\<lparr>K2OCTAHEDRON_COEFS := table\<rparr>) A = krelu_with_cdd env A \<and>
   fkrelu example_env example_A1_bad = Inl (ASRTF ''Unexpected number of rows in the input.'') \<and>
   krelu_with_cdd example_env example_A1_bad =
     Inr \<lparr>mrows = [[Num 0, Num 0, Num 1], [Num 0, Num (- 1), Num 1],
                    [Num (6004799503160661 / 9007199254740992),
                     Num (6004799503160661 / 9007199254740992), Num (- 1)]],
          mcols = 3\<rparr>"
proof (intro conjI impI)
  assume "\<not> (1 \<le> int (mcols A) - 1 \<and> int (mcols A) - 1 \<le> 4)"
  then show "krelu_with_cdd env A = Inl (ASRTF ''K should be within allowed range.'')"
    by (simp add: krelu_with_cdd_def Let_def)
next
  assume K: "1 \<le> int (mcols A) - 1 \<and> int (mcols A) - 1 \<le> 4"
  show "krelu_with_cdd env A \<noteq> Inl (ASRTF ''K should be within allowed range.'')"
    using krelu_with_cdd_Inl[OF K] by fastforce
next
  assume K: "1 \<le> int (mcols A) - 1 \<and> int (mcols A) - 1 \<le> 4"
  show "krelu_with_cdd env A \<noteq> Inl (ASRTF ''Unexpected number of rows in the input.'')"
    using krelu_with_cdd_Inl[OF K] by fastforce
next
  assume K: "1 \<le> int (mcols A) - 1 \<and> int (mcols A) - 1 \<le> 4"
  show "krelu_with_cdd env A \<noteq> Inl (ASRTF ''Input is not of correct format.'')"
    using krelu_with_cdd_Inl[OF K] by fastforce
next
  show "krelu_with_cdd (env\<lparr>K2OCTAHEDRON_COEFS := table\<rparr>) A = krelu_with_cdd env A"
    by (simp add: krelu_with_cdd_def Let_def cong: sum.case_cong prod.case_cong if_cong)
next
  show "fkrelu example_env example_A1_bad
          = Inl (ASRTF ''Unexpected number of rows in the input.'')"
    by (rule example_A1_bad_rejected)
next
  show "krelu_with_cdd example_env example_A1_bad =
     Inr \<lparr>mrows = [[Num 0, Num 0, Num 1], [Num 0, Num (- 1), Num 1],
                    [Num (6004799503160661 / 9007199254740992),
                     Num (6004799503160661 / 9007199254740992), Num (- 1)]],
          mcols = 3\<rparr>"
    by (rule example_krelu_with_cdd)
qed

theorem krelu_with_cdd_skips_validation_witness:
  "1 \<le> int (mcols example_A1_bad) - 1 \<and> int (mcols example_A1_bad) - 1 \<le> 4 \<and>
   fkrelu example_env example_A1_bad = Inl (ASRTF ''Unexpected number of rows in the input.'') \<and>
   krelu_with_cdd example_env example_A1_bad
     \<noteq> Inl (ASRTF ''Unexpected number of rows in the input.'') \<and>
   krelu_with_cdd (example_env\<lparr>K2OCTAHEDRON_COEFS := (\<lambda>K i j. 0)\<rparr>) example_A1_bad =
     Inr \<lparr>mrows = [[Num 0, Num 0, Num 1], [Num 0, Num (- 1), Num 1],
                    [Num (6004799503160661 / 9007199254740992),
                     Num (6004799503160661 / 9007199254740992), Num (- 1)]],
          mcols = 3\<rparr> \<and>
   int (mcols example_A_wide) - 1 = 5 \<and>
   krelu_with_cdd example_env example_A_wide = Inl (ASRTF ''K should be within allowed range.'')"
proof -
  have K: "1 \<le> int (mcols example_A1_bad) - 1 \<and> int (mcols example_A1_bad) - 1 \<le> 4"
    by (simp add: example_A1_bad_def)
  have W: "int (mcols example_A_wide) - 1 = 5"
    by (simp add: example_A_wide_def)
  from krelu_with_cdd_skips_validation[of example_A1_bad example_env "\<lambda>K i j. 0"] K
    krelu_with_cdd_skips_validation[of example_A_wide example_env "\<lambda>K i j. 0"] W
  show ?thesis by simp
qed

end
